theory Spec2Isabelle
  imports Complex_Main "HOL-Library.Word" "HOL-Library.Log_Nat"
begin

unbundle bit_operations_syntax

section \<open>The Sweet parser of sch\_sweet\_parser.cpp\<close>

text \<open>
  A shallow embedding of \<^verbatim>\<open>SWEET_PARSER\<close>: the unit converter, the inheritance
  resolver \<^verbatim>\<open>parseExtends\<close>, the dispatcher \<^verbatim>\<open>Parse\<close> and the sub-parsers for
  fonts, text effects, pins and the graphic primitives. A C++ exception is a value
  \<open>Inl e\<close> of a sum type, the token stream and the parser's \<^verbatim>\<open>contains\<close> word are an
  explicit state, and every \<^verbatim>\<open>while\<close>/\<^verbatim>\<open>for\<close> loop is a recursive function whose
  termination is proved on the number of tokens left.
\<close>

subsection \<open>Doubles and the unit converter\<close>

text \<open>
  \<^verbatim>\<open>double\<close> is IEEE-754 binary64. A finite double is a pair of integers, the value being
  \<open>mant * 2 ^ expo\<close>: a normal number has \<open>2 ^ 52 \<le> \<bar>mant\<bar> < 2 ^ 53\<close> and
  \<open>- 1074 \<le> expo \<le> 971\<close>, a subnormal number has \<open>\<bar>mant\<bar> < 2 ^ 52\<close> and \<open>expo = - 1074\<close>,
  and zero is \<open>Finite 0 0\<close>. The flag of an infinity is its sign (set for the negative
  one). The sign of zero and the payload of a NaN are not modelled; no operation of
  the parser looks at them. A \<^verbatim>\<open>float\<close> (binary32) is kept in the same type, with
  \<open>\<bar>mant\<bar> < 2 ^ 24\<close> and \<open>- 149 \<le> expo \<le> 104\<close>.
\<close>

datatype double = Finite (mant: int) (expo: int) | Infinity bool | NaN

type_synonym c_float = double

definition is_finite :: "double \<Rightarrow> bool" where
  "is_finite d = (case d of Finite m e \<Rightarrow> True | _ \<Rightarrow> False)"

text \<open>The value of a finite double.\<close>

definition dval :: "double \<Rightarrow> rat" where
  "dval d = (case d of Finite m e \<Rightarrow> of_int m * 2 powi e | _ \<Rightarrow> 0)"

text \<open>The integer nearest to \<open>n / d\<close>, for \<open>0 < d\<close>; of two nearest ones the even one.\<close>

definition round_half_even :: "int \<Rightarrow> int \<Rightarrow> int" where
  "round_half_even n d =
     (let t = n div d; r = n mod d
      in if 2 * r < d then t else if d < 2 * r then t + 1
         else if even t then t else t + 1)"

text \<open>The fraction \<open>a / q\<close> times \<open>2 ^ s\<close>, as a fraction again.\<close>

definition scale2 :: "int \<Rightarrow> int \<Rightarrow> int \<Rightarrow> int \<times> int" where
  "scale2 a q s = (if 0 \<le> s then (a * 2 ^ nat s, q) else (a, q * 2 ^ nat (- s)))"

text \<open>
  The scale \<open>s\<close> that brings the fraction \<open>a / q\<close> into the interval from
  \<open>2 ^ (prec - 1)\<close> up to \<open>2 ^ prec\<close>, for \<open>0 < a\<close> and \<open>0 < q\<close>.
\<close>

definition norm_scale :: "nat \<Rightarrow> int \<Rightarrow> int \<Rightarrow> int" where
  "norm_scale prec a q =
     (let s0 = int prec - (bitlen a - bitlen q)
      in case scale2 a q s0 of (n, d) \<Rightarrow> if d * 2 ^ prec \<le> n then s0 - 1 else s0)"

text \<open>
  Rounding to nearest, ties to even, of the fraction \<open>p / q\<close> (\<open>0 < q\<close>) to a binary
  format of \<open>prec\<close> bits whose least exponent is \<open>- smax\<close> and whose greatest one is
  \<open>emax\<close>: below the normal range the scale stays at \<open>smax\<close> (gradual underflow), and a
  result beyond the greatest finite number is an infinity.
\<close>

definition round_binary :: "nat \<Rightarrow> int \<Rightarrow> int \<Rightarrow> int \<Rightarrow> int \<Rightarrow> double" where
  "round_binary prec smax emax p q =
     (if p = 0 then Finite 0 0
      else
        let s = min (norm_scale prec \<bar>p\<bar> q) smax;
            m = (case scale2 \<bar>p\<bar> q s of (n, d) \<Rightarrow> round_half_even n d)
        in if m = 0 then Finite 0 0
           else if m = 2 ^ prec
           then (if emax < 1 - s then Infinity (p < 0) else Finite (sgn p * 2 ^ (prec - 1)) (1 - s))
           else (if emax < - s then Infinity (p < 0) else Finite (sgn p * m) (- s)))"

definition to_double :: "int \<Rightarrow> int \<Rightarrow> double" where
  "to_double p q = round_binary 53 1074 971 p q"

text \<open>The conversion of a double to \<^verbatim>\<open>float\<close>, as in the assignment \<^verbatim>\<open>*angle = strtod( ... )\<close>.\<close>

fun to_float :: "double \<Rightarrow> double" where
  "to_float (Finite m e) = (case scale2 m 1 e of (p, q) \<Rightarrow> round_binary 24 149 104 p q)"
| "to_float (Infinity s) = Infinity s"
| "to_float NaN = NaN"

text \<open>The product of two doubles, \<^verbatim>\<open>x * y\<close> in C++.\<close>

fun fmul :: "double \<Rightarrow> double \<Rightarrow> double" where
  "fmul (Finite m e) (Finite m' e') =
     (case scale2 (m * m') 1 (e + e') of (p, q) \<Rightarrow> to_double p q)"
| "fmul (Finite m e) (Infinity s) = (if m = 0 then NaN else Infinity (s \<noteq> (m < 0)))"
| "fmul (Infinity s) (Finite m e) = (if m = 0 then NaN else Infinity (s \<noteq> (m < 0)))"
| "fmul (Infinity s) (Infinity s') = Infinity (s \<noteq> s')"
| "fmul NaN y = NaN"
| "fmul (Finite m e) NaN = NaN"
| "fmul (Infinity s) NaN = NaN"

text \<open>
  The conversion \<^verbatim>\<open>int( d )\<close> to the 32-bit \<^verbatim>\<open>int\<close>: the fraction is dropped. When the
  result does not fit, or \<open>d\<close> is an infinity or a NaN, the conversion is undefined in
  C++; the instruction that compilers emit for it on x86-64 (\<^verbatim>\<open>cvttsd2si\<close>) answers
  \<^verbatim>\<open>INT_MIN\<close> then, and so does the model.
\<close>

definition INT_MIN :: int where
  "INT_MIN = - (2 ^ 31)"

definition INT_MAX :: int where
  "INT_MAX = 2 ^ 31 - 1"

fun c_int :: "double \<Rightarrow> int" where
  "c_int (Finite m e) =
     (let t = (if 0 \<le> e then m * 2 ^ nat e else sgn m * (\<bar>m\<bar> div 2 ^ nat (- e)))
      in if INT_MIN \<le> t \<and> t \<le> INT_MAX then t else INT_MIN)"
| "c_int (Infinity s) = INT_MIN"
| "c_int NaN = INT_MIN"

definition digit_of :: "char \<Rightarrow> int option" where
  "digit_of c = map_of (zip ''0123456789'' [0, 1, 2, 3, 4, 5, 6, 7, 8, 9]) c"

definition hex_digit_of :: "char \<Rightarrow> int option" where
  "hex_digit_of c =
     map_of (zip ''0123456789abcdefABCDEF''
               [0, 1, 2, 3, 4, 5, 6, 7, 8, 9, 10, 11, 12, 13, 14, 15, 10, 11, 12, 13, 14, 15]) c"

text \<open>
  \<open>digits s acc n\<close> reads the leading decimal digits of \<open>s\<close>: the number read so far,
  how many digits were read, and the rest of the string. \<open>hex_digits\<close> does the same
  for hexadecimal digits.
\<close>

fun digits :: "string \<Rightarrow> int \<Rightarrow> nat \<Rightarrow> int \<times> nat \<times> string" where
  "digits [] acc n = (acc, n, [])"
| "digits (c # cs) acc n =
     (case digit_of c of None \<Rightarrow> (acc, n, c # cs)
      | Some d \<Rightarrow> digits cs (10 * acc + d) (Suc n))"

fun hex_digits :: "string \<Rightarrow> int \<Rightarrow> nat \<Rightarrow> int \<times> nat \<times> string" where
  "hex_digits [] acc n = (acc, n, [])"
| "hex_digits (c # cs) acc n =
     (case hex_digit_of c of None \<Rightarrow> (acc, n, c # cs)
      | Some d \<Rightarrow> hex_digits cs (16 * acc + d) (Suc n))"

text \<open>
  Digits, an optional point and more digits, with one digit at least, read by \<open>rd\<close>: the
  digits as one number \<open>m\<close>, the number \<open>k\<close> of digits after the point, and the rest of
  the string.
\<close>

definition significand ::
  "(string \<Rightarrow> int \<Rightarrow> nat \<Rightarrow> int \<times> nat \<times> string) \<Rightarrow> string \<Rightarrow> (int \<times> nat \<times> string) option" where
  "significand rd u =
     (case rd u 0 0 of (ip, n1, r1) \<Rightarrow>
        (case (case r1 of c # cs \<Rightarrow> if c = CHR ''.'' then rd cs ip 0 else (ip, 0, r1)
               | [] \<Rightarrow> (ip, 0, r1)) of
           (m, n2, r2) \<Rightarrow> if n1 + n2 = 0 then None else Some (m, n2, r2)))"

text \<open>An optional sign: whether it is the minus sign, and the rest of the string.\<close>

definition signed :: "string \<Rightarrow> bool \<times> string" where
  "signed s = (case s of c # cs \<Rightarrow> if c = CHR ''-'' then (True, cs)
                 else if c = CHR ''+'' then (False, cs) else (False, s)
               | [] \<Rightarrow> (False, s))"

text \<open>
  An optional exponent part, marked by the letter \<open>lo\<close> or \<open>up\<close>: its value, and 0 when
  the letter or the digits are missing (the letter is then not part of the number).
\<close>

definition exponent_part :: "char \<Rightarrow> char \<Rightarrow> string \<Rightarrow> int" where
  "exponent_part lo up s =
     (case s of [] \<Rightarrow> 0
      | c # cs \<Rightarrow>
          if c = lo \<or> c = up then
            (case signed cs of (neg, ds) \<Rightarrow>
               (case digits ds 0 0 of (x, n, r) \<Rightarrow>
                  if n = 0 then 0 else if neg then - x else x))
          else 0)"

text \<open>Whether \<open>s\<close> begins with the given letters, each in either case.\<close>

fun starts_ci :: "(char \<times> char) list \<Rightarrow> string \<Rightarrow> bool" where
  "starts_ci [] s = True"
| "starts_ci (p # ps) [] = False"
| "starts_ci ((lo, up) # ps) (c # cs) = ((c = lo \<or> c = up) \<and> starts_ci ps cs)"

definition is_space :: "char \<Rightarrow> bool" where
  "is_space c = (c \<in> set [CHR '' '', CHR 0x09, CHR 0x0A, CHR 0x0B, CHR 0x0C, CHR 0x0D])"

text \<open>The hexadecimal form \<^verbatim>\<open>0x\<close>\<open>h.h\<close>, without its sign and its exponent.\<close>

definition hex_float :: "string \<Rightarrow> (int \<times> nat \<times> string) option" where
  "hex_float u =
     (case u of c # x # cs \<Rightarrow>
        if c = CHR ''0'' \<and> (x = CHR ''x'' \<or> x = CHR ''X'') then significand hex_digits cs
        else None
      | _ \<Rightarrow> None)"

text \<open>
  \<^verbatim>\<open>strtod( s, NULL )\<close> of the C library, in the C locale: white space is skipped, then
  the longest initial part of one of the forms of C99 7.20.1.3 is converted (a decimal
  number with an optional exponent, a hexadecimal one with an optional binary exponent,
  \<^verbatim>\<open>inf\<close>, \<^verbatim>\<open>infinity\<close> or \<^verbatim>\<open>nan\<close> in any case), correctly rounded, and zero is
  answered when there is none.
\<close>

definition strtod :: "string \<Rightarrow> double" where
  "strtod s =
     (case signed (dropWhile is_space s) of (neg, u) \<Rightarrow>
        if starts_ci [(CHR ''i'', CHR ''I''), (CHR ''n'', CHR ''N''), (CHR ''f'', CHR ''F'')] u
        then Infinity neg
        else if starts_ci [(CHR ''n'', CHR ''N''), (CHR ''a'', CHR ''A''), (CHR ''n'', CHR ''N'')] u
        then NaN
        else
          (case hex_float u of
             Some (m, k, r) \<Rightarrow>
               (case scale2 (if neg then - m else m) 1
                       (exponent_part (CHR ''p'') (CHR ''P'') r - 4 * int k) of
                  (p, q) \<Rightarrow> to_double p q)
           | None \<Rightarrow>
               (case significand digits u of
                  None \<Rightarrow> Finite 0 0
                | Some (m, k, r) \<Rightarrow>
                    (let x = exponent_part (CHR ''e'') (CHR ''E'') r - int k;
                         n = (if neg then - m else m)
                     in if 0 \<le> x then to_double (n * 10 ^ nat x) 1
                        else to_double n (10 ^ nat (- x))))))"

definition INTERNAL_PER_LOGICAL :: double where
  "INTERNAL_PER_LOGICAL = to_double 10000 1"

definition log2int :: "double \<Rightarrow> int" where
  "log2int aCoord = c_int (fmul aCoord INTERNAL_PER_LOGICAL)"

definition internal :: "string \<Rightarrow> int" where
  "internal aCoord = log2int (strtod aCoord)"

text \<open>
  The converter as section 8 of the specification words it:
  \<^verbatim>\<open>convert(s) == round(parse_float(s) * 10000)\<close>, on the exact value of the numeral. A
  decimal numeral is an optional sign, then digits with an optional point among them,
  and nothing else.
\<close>

definition decimal_prefix :: "string \<Rightarrow> (int \<times> nat) option" where
  "decimal_prefix s =
     (let neg = (case s of c # _ \<Rightarrow> c = CHR ''-'' | [] \<Rightarrow> False);
          s1 = (case s of c # cs \<Rightarrow> if c = CHR ''-'' \<or> c = CHR ''+'' then cs else s
                | [] \<Rightarrow> s)
      in case digits s1 0 0 of (ip, n1, s2) \<Rightarrow>
           (case (case s2 of c # cs \<Rightarrow> if c = CHR ''.'' then digits cs ip 0 else (ip, 0, s2)
                           | [] \<Rightarrow> (ip, 0, s2)) of
              (m, n2, s3) \<Rightarrow>
                if n1 + n2 = 0 then None
                else Some (if neg then - m else m, n2)))"

definition decimal_numeral :: "string \<Rightarrow> bool" where
  "decimal_numeral s =
     (case s of [] \<Rightarrow> False
      | c # cs \<Rightarrow>
          (let s1 = (if c = CHR ''-'' \<or> c = CHR ''+'' then cs else s)
           in case digits s1 0 0 of (ip, n1, s2) \<Rightarrow>
                (case s2 of [] \<Rightarrow> 0 < n1
                 | c2 # cs2 \<Rightarrow> c2 = CHR ''.'' \<and>
                     (case digits cs2 0 0 of (fp, n2, s3) \<Rightarrow> s3 = [] \<and> 0 < n1 + n2))))"

definition parse_float :: "string \<Rightarrow> rat" where
  "parse_float s = (case decimal_prefix s of None \<Rightarrow> 0
                    | Some (m, k) \<Rightarrow> of_int m / 10 ^ k)"

definition convert_spec :: "string \<Rightarrow> int" where
  "convert_spec s = round (parse_float s * 10000)"

subsection \<open>Tokens, errors and the token stream\<close>

text \<open>
  The token type \<^verbatim>\<open>PR::T\<close>: the lexer's own tokens, then the keywords this parser
  names.
\<close>

datatype (plugins only:) T =
    T_LEFT | T_RIGHT | T_EOF | T_NUMBER | T_SYMBOL | T_STRING
  | T_alternates | T_anchor | T_arc | T_at | T_bezier | T_bidirectional | T_bold | T_bottom
  | T_center | T_circle | T_clock | T_clock_low | T_datasheet | T_effects | T_end | T_extends
  | T_falling_edge | T_fill | T_filled | T_font | T_footprint | T_input | T_input_low
  | T_inverted | T_inverted_clk | T_italic | T_justify | T_keywords | T_left | T_length
  | T_line | T_line_width | T_model | T_no | T_non_logic | T_none | T_open_collector
  | T_open_emitter | T_output | T_padname | T_part | T_passive | T_pin | T_pin_merge
  | T_pin_rename | T_pin_renum | T_pin_swap | T_polyline | T_pos | T_power_in | T_power_out
  | T_property | T_property_del | T_pts | T_radius | T_rectangle | T_reference | T_right
  | T_route_pin_swap | T_signal | T_size | T_start | T_text | T_top | T_transparent
  | T_tristate | T_unconnected | T_unspecified | T_value | T_visible | T_xy | T_yes

text \<open>
  The exceptions of the parser. \<^verbatim>\<open>Expecting\<close>, \<^verbatim>\<open>Unexpected\<close> and \<^verbatim>\<open>Duplicate\<close> are
  overloaded on a token and on a text; the source name, line and offset that each
  exception also carries come from the lexer and are left out.
\<close>

datatype PARSE_ERROR =
    Expecting_tok T
  | Expecting_text string
  | Unexpected_tok T
  | Unexpected_text string
  | Duplicate_tok T
  | Duplicate_raw int
  | Need_number string
  | Invalid_LPID int
  | Self_ancestor
  | Depth_exceeded
  | Lookup_failed

text \<open>
  The specification's error kinds: a grammar error is an \<^verbatim>\<open>Expecting\<close>, an
  \<^verbatim>\<open>Unexpected\<close> or a missing number.
\<close>

definition is_GrammarError :: "PARSE_ERROR \<Rightarrow> bool" where
  "is_GrammarError e =
     (case e of Expecting_tok _ \<Rightarrow> True | Expecting_text _ \<Rightarrow> True
      | Unexpected_tok _ \<Rightarrow> True | Unexpected_text _ \<Rightarrow> True | Need_number _ \<Rightarrow> True
      | _ \<Rightarrow> False)"

definition is_DuplicateClauseError :: "PARSE_ERROR \<Rightarrow> bool" where
  "is_DuplicateClauseError e =
     (case e of Duplicate_tok _ \<Rightarrow> True | Duplicate_raw _ \<Rightarrow> True | _ \<Rightarrow> False)"

type_synonym 'a result = "PARSE_ERROR + 'a"

definition bindE :: "'e + 'a \<Rightarrow> ('a \<Rightarrow> 'e + 'b) \<Rightarrow> 'e + 'b" where
  "bindE m f = (case m of Inl e \<Rightarrow> Inl e | Inr x \<Rightarrow> f x)"

text \<open>
  The parser object: the tokens not yet read, the text of the current token
  (\<^verbatim>\<open>CurText()\<close>) and the member \<^verbatim>\<open>contains\<close>.
\<close>

record SWEET_PARSER =
  toks :: "(T \<times> string) list"
  curText :: string
  contains :: "32 word"

text \<open>
  Modelled from the spec: "next-token" of the token stream of section 6 (the lexer class
  is not part of the source). It reads one token, whose text becomes the current text,
  and answers \<open>T_EOF\<close> at the end of the input.
\<close>

definition NextTok :: "SWEET_PARSER \<Rightarrow> T \<times> SWEET_PARSER" where
  "NextTok st = (case toks st of [] \<Rightarrow> (T_EOF, st)
                 | (t, s) # ts \<Rightarrow> (t, st\<lparr>toks := ts, curText := s\<rparr>))"

text \<open>
  Modelled from the spec: "is this token a symbol". A symbol, a quoted string and every
  keyword are symbols, as \<^verbatim>\<open>tok = NeedSYMBOL(); if( tok != T_xy )\<close> in the source needs.
\<close>

definition IsSymbol :: "T \<Rightarrow> bool" where
  "IsSymbol tok = (tok \<noteq> T_LEFT \<and> tok \<noteq> T_RIGHT \<and> tok \<noteq> T_EOF \<and> tok \<noteq> T_NUMBER)"

text \<open>Modelled from the spec: "require left-delimiter".\<close>

definition NeedLEFT :: "SWEET_PARSER \<Rightarrow> SWEET_PARSER result" where
  "NeedLEFT st = (case NextTok st of (tok, st1) \<Rightarrow>
     if tok \<noteq> T_LEFT then Inl (Expecting_tok T_LEFT) else Inr st1)"

text \<open>Modelled from the spec: "require right-delimiter".\<close>

definition NeedRIGHT :: "SWEET_PARSER \<Rightarrow> SWEET_PARSER result" where
  "NeedRIGHT st = (case NextTok st of (tok, st1) \<Rightarrow>
     if tok \<noteq> T_RIGHT then Inl (Expecting_tok T_RIGHT) else Inr st1)"

text \<open>Modelled from the spec: the requirement of a symbol; it answers the token read.\<close>

definition NeedSYMBOL :: "SWEET_PARSER \<Rightarrow> (T \<times> SWEET_PARSER) result" where
  "NeedSYMBOL st = (case NextTok st of (tok, st1) \<Rightarrow>
     if \<not> IsSymbol tok then Inl (Expecting_tok T_SYMBOL) else Inr (tok, st1))"

text \<open>Modelled from the spec: "require symbol-or-number"; it answers the token read.\<close>

definition NeedSYMBOLorNUMBER :: "SWEET_PARSER \<Rightarrow> (T \<times> SWEET_PARSER) result" where
  "NeedSYMBOLorNUMBER st = (case NextTok st of (tok, st1) \<Rightarrow>
     if \<not> IsSymbol tok \<and> tok \<noteq> T_NUMBER then Inl (Expecting_text ''symbol|number'')
     else Inr (tok, st1))"

text \<open>
  Modelled from the spec: "require number", with the label of the field for the message.
\<close>

definition NeedNUMBER :: "string \<Rightarrow> SWEET_PARSER \<Rightarrow> SWEET_PARSER result" where
  "NeedNUMBER aExpectation st = (case NextTok st of (tok, st1) \<Rightarrow>
     if tok \<noteq> T_NUMBER then Inl (Need_number aExpectation) else Inr st1)"

subsection \<open>The part and its nodes\<close>

text \<open>
  The classes of sch\_part.h are not part of the source; the records hold the members
  the parser stores into. A \<^verbatim>\<open>BEZIER\<close> is a \<^verbatim>\<open>POLY_LINE\<close>. Pointers to parts are
  addresses into a store of parts. An angle is a \<^verbatim>\<open>float\<close>, as the
  parameter \<^verbatim>\<open>float* angle\<close> of \<^verbatim>\<open>parseAt\<close> says; a line width holds the double that
  \<^verbatim>\<open>strtod\<close> returns.
\<close>

record POINT =
  pt_x :: int
  pt_y :: int

record SIZE =
  size_height :: int
  size_width :: int

record FONT =
  font_name :: string
  font_size :: SIZE
  font_italic :: bool
  font_bold :: bool

record TEXT_EFFECTS =
  te_propName :: string
  te_pos :: POINT
  te_angle :: c_float
  te_font :: FONT
  te_isVisible :: bool

record PROPERTY =
  prop_name :: string
  prop_text :: string
  prop_effects :: TEXT_EFFECTS

record PINTEXT =
  pintext_text :: string
  pintext_font :: FONT
  pintext_isVisible :: bool

record PIN =
  pin_pos :: POINT
  pin_angle :: c_float
  pin_length :: int
  pin_signal :: PINTEXT
  pin_padname :: PINTEXT
  pin_isVisible :: bool
  pin_connectionType :: T
  pin_shape :: T

record POLY_LINE =
  pl_lineWidth :: double
  pl_fillType :: T
  pl_pts :: "POINT list"

record RECTANGLE =
  rect_lineWidth :: double
  rect_fillType :: T
  rect_start :: POINT
  rect_end :: POINT

record CIRCLE =
  circ_lineWidth :: double
  circ_fillType :: T
  circ_center :: POINT
  circ_radius :: int

record ARC =
  arc_lineWidth :: double
  arc_fillType :: T
  arc_pos :: POINT
  arc_radius :: int
  arc_start :: POINT
  arc_end :: POINT

record GR_TEXT =
  txt_text :: string
  txt_pos :: POINT
  txt_angle :: c_float
  txt_fillType :: T
  txt_hjustify :: T
  txt_vjustify :: T
  txt_isVisible :: bool
  txt_font :: FONT

datatype GRAPHIC =
    G_POLY_LINE POLY_LINE
  | G_BEZIER POLY_LINE
  | G_RECTANGLE RECTANGLE
  | G_CIRCLE CIRCLE
  | G_ARC ARC
  | G_TEXT GR_TEXT

type_synonym addr = nat

record PART =
  part_owner :: nat
  part_extends :: "string option"
  part_base :: "addr option"
  part_anchor :: POINT
  part_reference :: PROPERTY
  part_value :: PROPERTY
  part_footprint :: PROPERTY
  part_datasheet :: PROPERTY
  part_model :: PROPERTY
  part_properties :: "PROPERTY list"
  part_graphics :: "GRAPHIC list"
  part_pins :: "PIN list"
  part_contains :: "32 word"

type_synonym store = "addr \<Rightarrow> PART"


subsection \<open>Consumption of tokens\<close>

lemma bindE_eq_Inr: "bindE m f = Inr y \<longleftrightarrow> (\<exists>x. m = Inr x \<and> f x = Inr y)"
  by (cases m) (auto simp: bindE_def)

lemma case_prod_eq_Inr:
  "(case p of (a, b) \<Rightarrow> f a b) = Inr y \<longleftrightarrow> (\<exists>a b. p = (a, b) \<and> f a b = Inr y)"
  by (cases p) simp

lemma if_eq_Inr:
  "(if c then a else b) = Inr y \<longleftrightarrow> (c \<and> a = Inr y) \<or> (\<not> c \<and> b = Inr y)"
  by simp

lemmas inr_iff = bindE_eq_Inr case_prod_eq_Inr if_eq_Inr Let_def

lemma bindE_Inr [simp]: "bindE (Inr x) f = f x"
  by (simp add: bindE_def)

lemma bindE_Inl [simp]: "bindE (Inl e) f = Inl e"
  by (simp add: bindE_def)

lemma NextTok_le: "NextTok st = (tok, st1) \<Longrightarrow> length (toks st1) \<le> length (toks st)"
  by (auto simp: NextTok_def split: list.splits)

lemma NextTok_less:
  "NextTok st = (tok, st1) \<Longrightarrow> tok \<noteq> T_EOF \<Longrightarrow> length (toks st1) < length (toks st)"
  by (auto simp: NextTok_def split: list.splits)

lemma NextTok_measure:
  "(tok, st1) = NextTok st \<Longrightarrow>
     length (toks st1) \<le> length (toks st) \<and>
     (tok \<noteq> T_EOF \<longrightarrow> length (toks st1) < length (toks st))"
  by (auto simp: NextTok_def split: list.splits)

lemma NextTok_contains: "NextTok st = (tok, st1) \<Longrightarrow> contains st1 = contains st"
  by (auto simp: NextTok_def split: list.splits)

lemma NeedLEFT_less: "NeedLEFT st = Inr st1 \<Longrightarrow> length (toks st1) < length (toks st)"
  by (auto simp: NeedLEFT_def split: prod.splits if_splits dest: NextTok_less)

lemma NeedRIGHT_less: "NeedRIGHT st = Inr st1 \<Longrightarrow> length (toks st1) < length (toks st)"
  by (auto simp: NeedRIGHT_def split: prod.splits if_splits dest: NextTok_less)

lemma NeedNUMBER_less: "NeedNUMBER l st = Inr st1 \<Longrightarrow> length (toks st1) < length (toks st)"
  by (auto simp: NeedNUMBER_def split: prod.splits if_splits dest: NextTok_less)

lemma NeedSYMBOL_less:
  "NeedSYMBOL st = Inr (tok, st1) \<Longrightarrow> length (toks st1) < length (toks st)"
  by (auto simp: NeedSYMBOL_def IsSymbol_def split: prod.splits if_splits dest: NextTok_less)

lemma NeedSYMBOLorNUMBER_less:
  "NeedSYMBOLorNUMBER st = Inr (tok, st1) \<Longrightarrow> length (toks st1) < length (toks st)"
  by (auto simp: NeedSYMBOLorNUMBER_def IsSymbol_def split: prod.splits if_splits
      dest: NextTok_less)

lemma NeedLEFT_contains: "NeedLEFT st = Inr st1 \<Longrightarrow> contains st1 = contains st"
  by (auto simp: NeedLEFT_def split: prod.splits if_splits dest: NextTok_contains)





subsection \<open>Shared sub-grammars\<close>

text \<open>
  \<^verbatim>\<open>parseAt\<close>: every caller passes the address of an angle member, so the test
  \<^verbatim>\<open>angle && ...\<close> is the test of the token alone.
\<close>

definition parseAt ::
  "SWEET_PARSER \<Rightarrow> POINT \<Rightarrow> c_float \<Rightarrow> (SWEET_PARSER \<times> POINT \<times> c_float) result" where
  "parseAt st pos angle =
     bindE (NeedNUMBER ''at x'' st) (\<lambda>st1.
     bindE (NeedNUMBER ''at y'' st1) (\<lambda>st2.
       let pos1 = pos\<lparr>pt_x := internal (curText st1), pt_y := internal (curText st2)\<rparr>
       in case NextTok st2 of (tok, st3) \<Rightarrow>
            if tok = T_NUMBER then
              (case NextTok st3 of (tok1, st4) \<Rightarrow>
                 if tok1 \<noteq> T_RIGHT then Inl (Expecting_tok T_RIGHT)
                 else Inr (st4, pos1, to_float (strtod (curText st3))))
            else if tok \<noteq> T_RIGHT then Inl (Expecting_tok T_RIGHT)
            else Inr (st3, pos1, angle)))"

definition parseBool :: "SWEET_PARSER \<Rightarrow> (SWEET_PARSER \<times> bool) result" where
  "parseBool st =
     bindE (NeedSYMBOL st) (\<lambda>(tok, st1).
       if tok = T_yes \<or> tok = T_no then Inr (st1, tok = T_yes)
       else Inl (Expecting_text ''yes|no''))"

text \<open>One turn of the loop of \<^verbatim>\<open>parseFont\<close>, up to its closing \<^verbatim>\<open>tok = NextTok()\<close>.\<close>

definition parseFont_item ::
  "T \<Rightarrow> SWEET_PARSER \<Rightarrow> FONT \<Rightarrow> bool \<times> bool \<times> bool
     \<Rightarrow> (SWEET_PARSER \<times> FONT \<times> bool \<times> bool \<times> bool) result" where
  "parseFont_item tok st me saw =
     (case saw of (sawBold, sawItalic, sawSize) \<Rightarrow>
        if tok = T_LEFT then
          (case NextTok st of (tok1, st1) \<Rightarrow>
             if tok1 = T_size then
               (if sawSize then Inl (Duplicate_tok T_size)
                else
                  bindE (NeedNUMBER ''size height'' st1) (\<lambda>st2.
                  bindE (NeedNUMBER ''size width'' st2) (\<lambda>st3.
                  bindE (NeedRIGHT st3) (\<lambda>st4.
                    Inr (st4,
                         me\<lparr>font_size := \<lparr>size_height = internal (curText st2),
                                           size_width = internal (curText st3)\<rparr>\<rparr>,
                         sawBold, sawItalic, True)))))
             else Inl (Expecting_text ''size''))
        else if tok = T_bold then
          (if sawBold then Inl (Duplicate_tok T_bold)
           else Inr (st, me\<lparr>font_bold := True\<rparr>, True, sawItalic, sawSize))
        else if tok = T_italic then
          (if sawItalic then Inl (Duplicate_tok T_italic)
           else Inr (st, me\<lparr>font_italic := True\<rparr>, sawBold, True, sawSize))
        else Inl (Unexpected_text ''bold|italic''))"

lemma parseAt_less:
  "parseAt st pos angle = Inr (st1, r) \<Longrightarrow> length (toks st1) < length (toks st)"
  by (auto simp: parseAt_def inr_iff dest!: NeedNUMBER_less NextTok_le)

lemma parseBool_less:
  "parseBool st = Inr (st1, b) \<Longrightarrow> length (toks st1) < length (toks st)"
  by (auto simp: parseBool_def inr_iff dest!: NeedSYMBOL_less)

lemma parseFont_item_le:
  assumes "parseFont_item tok st me saw = Inr (st1, r)"
  shows "length (toks st1) \<le> length (toks st) \<and> tok \<noteq> T_EOF"
proof -
  obtain sawBold sawItalic sawSize where saw: "saw = (sawBold, sawItalic, sawSize)"
    by (cases saw) auto
  show ?thesis
  proof (cases "tok = T_LEFT")
    case True
    obtain tok1 st0 where nt: "NextTok st = (tok1, st0)"
      by (cases "NextTok st") auto
    from assms True saw nt have
      "bindE (NeedNUMBER ''size height'' st0) (\<lambda>st2.
         bindE (NeedNUMBER ''size width'' st2) (\<lambda>st3.
         bindE (NeedRIGHT st3) (\<lambda>st4.
           Inr (st4,
                me\<lparr>font_size := \<lparr>size_height = internal (curText st2),
                                  size_width = internal (curText st3)\<rparr>\<rparr>,
                sawBold, sawItalic, True)))) = Inr (st1, r)"
      by (auto simp: parseFont_item_def split: if_splits)
    then have "length (toks st1) < length (toks st0)"
      by (auto simp: bindE_eq_Inr dest!: NeedNUMBER_less NeedRIGHT_less)
    with NextTok_le [OF nt] True show ?thesis by simp
  next
    case False
    with assms saw show ?thesis
      by (auto simp: parseFont_item_def split: if_splits)
  qed
qed

function parseFont_loop ::
  "T \<Rightarrow> SWEET_PARSER \<Rightarrow> FONT \<Rightarrow> bool \<times> bool \<times> bool \<Rightarrow> (SWEET_PARSER \<times> FONT) result" where
  "parseFont_loop tok st me saw =
     (if tok = T_RIGHT then Inr (st, me)
      else
        (case parseFont_item tok st me saw of
           Inl e \<Rightarrow> Inl e
         | Inr (st1, me1, saw1) \<Rightarrow>
             (case NextTok st1 of (tok1, st2) \<Rightarrow> parseFont_loop tok1 st2 me1 saw1)))"
  by pat_completeness auto
termination
  by (relation "measure (\<lambda>(tok, st, me, saw).
         2 * length (toks st) + (if tok = T_EOF then 0 else 1))")
     (auto dest!: parseFont_item_le NextTok_measure)

declare parseFont_loop.simps [simp del]

definition parseFont :: "SWEET_PARSER \<Rightarrow> FONT \<Rightarrow> (SWEET_PARSER \<times> FONT) result" where
  "parseFont st me =
     (case NextTok st of (tok, st1) \<Rightarrow>
        if IsSymbol tok then
          (case NextTok st1 of (tok1, st2) \<Rightarrow>
             parseFont_loop tok1 st2 (me\<lparr>font_name := curText st1\<rparr>) (False, False, False))
        else parseFont_loop tok st1 me (False, False, False))"


lemma parseFont_loop_le:
  "parseFont_loop tok st me saw = Inr (st1, r) \<Longrightarrow> length (toks st1) \<le> length (toks st)"
proof (induction tok st me saw rule: parseFont_loop.induct)
  case (1 tok st me saw)
  show ?case
  proof (cases "tok = T_RIGHT")
    case True
    with "1.prems" show ?thesis by (simp add: parseFont_loop.simps [of T_RIGHT])
  next
    case False
    with "1.prems" obtain st2 me2 saw2 tok1 st3
      where item: "parseFont_item tok st me saw = Inr (st2, me2, saw2)"
        and nt: "NextTok st2 = (tok1, st3)"
        and rest: "parseFont_loop tok1 st3 me2 saw2 = Inr (st1, r)"
      by (auto simp: parseFont_loop.simps [of tok] split: sum.splits prod.splits)
    from "1.IH" [OF False item refl refl nt [symmetric] rest]
      parseFont_item_le [OF item] NextTok_le [OF nt]
    show ?thesis by simp
  qed
qed

lemma parseFont_less:
  assumes "parseFont st me = Inr (st1, r)"
  shows "length (toks st1) < length (toks st)"
proof -
  obtain tok st0 where nt: "NextTok st = (tok, st0)"
    by (cases "NextTok st") auto
  obtain tok1 st2 where nt1: "NextTok st0 = (tok1, st2)"
    by (cases "NextTok st0") auto
  show ?thesis
  proof (cases "IsSymbol tok")
    case True
    then have "tok \<noteq> T_EOF" by (auto simp: IsSymbol_def)
    with assms nt nt1 True NextTok_less [OF nt] NextTok_le [OF nt1] show ?thesis
      by (auto simp: parseFont_def dest!: parseFont_loop_le)
  next
    case False
    with assms nt have loop: "parseFont_loop tok st0 me (False, False, False) = Inr (st1, r)"
      by (simp add: parseFont_def)
    show ?thesis
    proof (cases "tok = T_EOF")
      case True
      with loop show ?thesis
        by (simp add: parseFont_loop.simps [of T_EOF] parseFont_item_def)
    next
      case neof: False
      from parseFont_loop_le [OF loop] NextTok_less [OF nt neof] show ?thesis by simp
    qed
  qed
qed

text \<open>
  Groups of statements that the source writes out in each graphics parser: the value of
  a \<^verbatim>\<open>fill\<close> clause, of a \<^verbatim>\<open>line_width\<close> clause, two coordinates, and one length, each
  up to the closing delimiter of the clause.
\<close>

definition fill_clause :: "SWEET_PARSER \<Rightarrow> (SWEET_PARSER \<times> T) result" where
  "fill_clause st =
     bindE (NeedSYMBOL st) (\<lambda>(tok, st1).
       if tok = T_none \<or> tok = T_filled \<or> tok = T_transparent then
         bindE (NeedRIGHT st1) (\<lambda>st2. Inr (st2, tok))
       else Inl (Expecting_text ''none|filled|transparent''))"

definition line_width_clause :: "SWEET_PARSER \<Rightarrow> (SWEET_PARSER \<times> double) result" where
  "line_width_clause st =
     bindE (NeedNUMBER ''line_width'' st) (\<lambda>st1.
     bindE (NeedRIGHT st1) (\<lambda>st2. Inr (st2, strtod (curText st1))))"

definition xy_clause ::
  "string \<Rightarrow> string \<Rightarrow> SWEET_PARSER \<Rightarrow> POINT \<Rightarrow> (SWEET_PARSER \<times> POINT) result" where
  "xy_clause lx ly st pt =
     bindE (NeedNUMBER lx st) (\<lambda>st1.
     bindE (NeedNUMBER ly st1) (\<lambda>st2.
     bindE (NeedRIGHT st2) (\<lambda>st3.
       Inr (st3, pt\<lparr>pt_x := internal (curText st1), pt_y := internal (curText st2)\<rparr>))))"

definition length_clause :: "string \<Rightarrow> SWEET_PARSER \<Rightarrow> (SWEET_PARSER \<times> int) result" where
  "length_clause l st =
     bindE (NeedNUMBER l st) (\<lambda>st1.
     bindE (NeedRIGHT st1) (\<lambda>st2. Inr (st2, internal (curText st1))))"

text \<open>\<^verbatim>\<open>parseBool( &b ); NeedRIGHT();\<close> of a \<^verbatim>\<open>visible\<close> clause.\<close>

definition visible_clause :: "SWEET_PARSER \<Rightarrow> (SWEET_PARSER \<times> bool) result" where
  "visible_clause st =
     bindE (parseBool st) (\<lambda>(st1, b).
     bindE (NeedRIGHT st1) (\<lambda>st2. Inr (st2, b)))"

lemma fill_clause_less:
  "fill_clause st = Inr (st1, r) \<Longrightarrow> length (toks st1) < length (toks st)"
  by (auto simp: fill_clause_def inr_iff dest!: NeedSYMBOL_less NeedRIGHT_less)

lemma line_width_clause_less:
  "line_width_clause st = Inr (st1, r) \<Longrightarrow> length (toks st1) < length (toks st)"
  by (auto simp: line_width_clause_def bindE_eq_Inr dest!: NeedNUMBER_less NeedRIGHT_less)

lemma xy_clause_less:
  "xy_clause lx ly st pt = Inr (st1, r) \<Longrightarrow> length (toks st1) < length (toks st)"
  by (auto simp: xy_clause_def bindE_eq_Inr dest!: NeedNUMBER_less NeedRIGHT_less)

lemma length_clause_less:
  "length_clause l st = Inr (st1, r) \<Longrightarrow> length (toks st1) < length (toks st)"
  by (auto simp: length_clause_def bindE_eq_Inr dest!: NeedNUMBER_less NeedRIGHT_less)

lemma visible_clause_less:
  "visible_clause st = Inr (st1, r) \<Longrightarrow> length (toks st1) < length (toks st)"
  by (auto simp: visible_clause_def inr_iff dest!: parseBool_less NeedRIGHT_less)

subsection \<open>Pins\<close>

definition parsePinText_item ::
  "T \<Rightarrow> SWEET_PARSER \<Rightarrow> PINTEXT \<Rightarrow> bool \<times> bool
     \<Rightarrow> (SWEET_PARSER \<times> PINTEXT \<times> bool \<times> bool) result" where
  "parsePinText_item tok st me saw =
     (case saw of (sawFont, sawVis) \<Rightarrow>
        if tok = T_LEFT then
          (case NextTok st of (tok1, st1) \<Rightarrow>
             if tok1 = T_font then
               (if sawFont then Inl (Duplicate_tok tok1)
                else bindE (parseFont st1 (pintext_font me)) (\<lambda>(st2, f).
                       Inr (st2, me\<lparr>pintext_font := f\<rparr>, True, sawVis)))
             else if tok1 = T_visible then
               (if sawVis then Inl (Duplicate_tok tok1)
                else bindE (visible_clause st1) (\<lambda>(st2, b).
                       Inr (st2, me\<lparr>pintext_isVisible := b\<rparr>, sawFont, True)))
             else Inl (Expecting_text ''font''))
        else Inl (Expecting_tok T_LEFT))"

lemma parsePinText_item_le:
  "parsePinText_item tok st me saw = Inr (st1, r) \<Longrightarrow>
     length (toks st1) \<le> length (toks st) \<and> tok \<noteq> T_EOF"
  by (auto simp: parsePinText_item_def inr_iff
       dest!: parseFont_less visible_clause_less NextTok_le)

function parsePinText_loop ::
  "SWEET_PARSER \<Rightarrow> PINTEXT \<Rightarrow> bool \<times> bool \<Rightarrow> (SWEET_PARSER \<times> PINTEXT) result" where
  "parsePinText_loop st me saw =
     (case NextTok st of (tok, st1) \<Rightarrow>
        if tok = T_RIGHT then Inr (st1, me)
        else
          (case parsePinText_item tok st1 me saw of
             Inl e \<Rightarrow> Inl e
           | Inr (st2, me2, saw2) \<Rightarrow> parsePinText_loop st2 me2 saw2))"
  by pat_completeness auto
termination
  by (relation "measure (\<lambda>(st, me, saw). length (toks st))")
     (auto dest!: parsePinText_item_le NextTok_measure)

declare parsePinText_loop.simps [simp del]

definition parsePinText :: "SWEET_PARSER \<Rightarrow> PINTEXT \<Rightarrow> (SWEET_PARSER \<times> PINTEXT) result" where
  "parsePinText st me =
     bindE (NeedSYMBOLorNUMBER st) (\<lambda>(tok, st1).
       parsePinText_loop st1 (me\<lparr>pintext_text := curText st1\<rparr>) (False, False))"

lemma parsePinText_loop_less:
  "parsePinText_loop st me saw = Inr (st1, r) \<Longrightarrow> length (toks st1) < length (toks st)"
proof (induction st me saw rule: parsePinText_loop.induct)
  case (1 st me saw)
  obtain tok st0 where nt: "NextTok st = (tok, st0)"
    by (cases "NextTok st") auto
  show ?case
  proof (cases "tok = T_RIGHT")
    case True
    with "1.prems" nt NextTok_less [OF nt] show ?thesis
      by (simp add: parsePinText_loop.simps [of st])
  next
    case False
    with "1.prems" nt obtain st2 me2 saw2
      where item: "parsePinText_item tok st0 me saw = Inr (st2, me2, saw2)"
        and rest: "parsePinText_loop st2 me2 saw2 = Inr (st1, r)"
      by (auto simp: parsePinText_loop.simps [of st] split: sum.splits prod.splits)
    from "1.IH" [OF nt [symmetric] False item refl refl rest]
      parsePinText_item_le [OF item] NextTok_le [OF nt]
    show ?thesis by simp
  qed
qed

lemma parsePinText_less:
  "parsePinText st me = Inr (st1, r) \<Longrightarrow> length (toks st1) < length (toks st)"
  by (auto simp: parsePinText_def inr_iff
       dest!: NeedSYMBOLorNUMBER_less parsePinText_loop_less)

text \<open>The two enumerations of the bare tokens of a pin, in the order of the source.\<close>

definition pin_types :: "T list" where
  "pin_types = [T_input, T_output, T_bidirectional, T_tristate, T_passive, T_unspecified,
                T_power_in, T_power_out, T_open_collector, T_open_emitter, T_unconnected]"

definition pin_shapes :: "T list" where
  "pin_shapes = [T_none, T_line, T_inverted, T_clock, T_inverted_clk, T_input_low,
                 T_clock_low, T_falling_edge, T_non_logic]"

text \<open>The flags of \<^verbatim>\<open>parsePin\<close>, in the order of their declarations.\<close>

type_synonym pin_saw = "bool \<times> bool \<times> bool \<times> bool \<times> bool \<times> bool \<times> bool"

definition parsePin_item ::
  "T \<Rightarrow> SWEET_PARSER \<Rightarrow> PIN \<Rightarrow> pin_saw \<Rightarrow> (SWEET_PARSER \<times> PIN \<times> pin_saw) result" where
  "parsePin_item tok st me saw =
     (case saw of (sawShape, sawType, sawAt, sawLen, sawSignal, sawPadName, sawVis) \<Rightarrow>
        if tok = T_LEFT then
          (case NextTok st of (tok1, st1) \<Rightarrow>
             if tok1 = T_at then
               (if sawAt then Inl (Duplicate_tok tok1)
                else bindE (parseAt st1 (pin_pos me) (pin_angle me)) (\<lambda>(st2, pos, angle).
                       Inr (st2, me\<lparr>pin_pos := pos, pin_angle := angle\<rparr>,
                            sawShape, sawType, True, sawLen, sawSignal, sawPadName, sawVis)))
             else if tok1 = T_length then
               (if sawLen then Inl (Duplicate_tok tok1)
                else bindE (length_clause ''length'' st1) (\<lambda>(st2, l).
                       Inr (st2, me\<lparr>pin_length := l\<rparr>,
                            sawShape, sawType, sawAt, True, sawSignal, sawPadName, sawVis)))
             else if tok1 = T_signal then
               (if sawSignal then Inl (Duplicate_tok tok1)
                else bindE (parsePinText st1 (pin_signal me)) (\<lambda>(st2, t).
                       Inr (st2, me\<lparr>pin_signal := t\<rparr>,
                            sawShape, sawType, sawAt, sawLen, True, sawPadName, sawVis)))
             else if tok1 = T_padname then
               (if sawPadName then Inl (Duplicate_tok tok1)
                else bindE (parsePinText st1 (pin_padname me)) (\<lambda>(st2, t).
                       Inr (st2, me\<lparr>pin_padname := t\<rparr>,
                            sawShape, sawType, sawAt, sawLen, sawSignal, True, sawVis)))
             else if tok1 = T_visible then
               (if sawVis then Inl (Duplicate_tok tok1)
                else bindE (visible_clause st1) (\<lambda>(st2, b).
                       Inr (st2, me\<lparr>pin_isVisible := b\<rparr>,
                            sawShape, sawType, sawAt, sawLen, sawSignal, sawPadName, True)))
             else Inl (Unexpected_tok tok1))
        else if tok \<in> set pin_types then
          (if sawType then Inl (Duplicate_tok tok)
           else Inr (st, me\<lparr>pin_connectionType := tok\<rparr>,
                     sawShape, True, sawAt, sawLen, sawSignal, sawPadName, sawVis))
        else if tok \<in> set pin_shapes then
          (if sawShape then Inl (Duplicate_tok tok)
           else Inr (st, me\<lparr>pin_shape := tok\<rparr>,
                     True, sawType, sawAt, sawLen, sawSignal, sawPadName, sawVis))
        else Inl (Unexpected_tok tok))"

lemma parsePin_item_le:
  "parsePin_item tok st me saw = Inr (st1, r) \<Longrightarrow>
     length (toks st1) \<le> length (toks st) \<and> tok \<noteq> T_EOF"
  by (auto simp: parsePin_item_def inr_iff pin_types_def pin_shapes_def
       dest!: parseAt_less length_clause_less parsePinText_less visible_clause_less NextTok_le)

function parsePin_loop ::
  "SWEET_PARSER \<Rightarrow> PIN \<Rightarrow> pin_saw \<Rightarrow> (SWEET_PARSER \<times> PIN) result" where
  "parsePin_loop st me saw =
     (case NextTok st of (tok, st1) \<Rightarrow>
        if tok = T_RIGHT then Inr (st1, me)
        else
          (case parsePin_item tok st1 me saw of
             Inl e \<Rightarrow> Inl e
           | Inr (st2, me2, saw2) \<Rightarrow> parsePin_loop st2 me2 saw2))"
  by pat_completeness auto
termination
  by (relation "measure (\<lambda>(st, me, saw). length (toks st))")
     (auto dest!: parsePin_item_le NextTok_measure)

declare parsePin_loop.simps [simp del]

definition parsePin :: "SWEET_PARSER \<Rightarrow> PIN \<Rightarrow> (SWEET_PARSER \<times> PIN) result" where
  "parsePin st me = parsePin_loop st me (False, False, False, False, False, False, False)"

lemma parsePin_loop_less:
  "parsePin_loop st me saw = Inr (st1, r) \<Longrightarrow> length (toks st1) < length (toks st)"
proof (induction st me saw rule: parsePin_loop.induct)
  case (1 st me saw)
  obtain tok st0 where nt: "NextTok st = (tok, st0)"
    by (cases "NextTok st") auto
  show ?case
  proof (cases "tok = T_RIGHT")
    case True
    with "1.prems" nt NextTok_less [OF nt] show ?thesis
      by (simp add: parsePin_loop.simps [of st])
  next
    case False
    with "1.prems" nt obtain st2 me2 saw2
      where item: "parsePin_item tok st0 me saw = Inr (st2, me2, saw2)"
        and rest: "parsePin_loop st2 me2 saw2 = Inr (st1, r)"
      by (auto simp: parsePin_loop.simps [of st] split: sum.splits prod.splits)
    from "1.IH" [OF nt [symmetric] False item refl refl rest]
      parsePin_item_le [OF item] NextTok_le [OF nt]
    show ?thesis by simp
  qed
qed

lemma parsePin_less:
  "parsePin st me = Inr (st1, r) \<Longrightarrow> length (toks st1) < length (toks st)"
  unfolding parsePin_def by (rule parsePin_loop_less)


subsection \<open>Text effects\<close>

text \<open>
  One turn of the loop of \<^verbatim>\<open>parseTextEffects\<close>. The duplicate of \<^verbatim>\<open>visible\<close> is
  reported as \<^verbatim>\<open>Duplicate( sawVis )\<close>, the flag converted to a token number.
\<close>

definition parseTextEffects_item ::
  "T \<Rightarrow> SWEET_PARSER \<Rightarrow> TEXT_EFFECTS \<Rightarrow> bool \<times> bool \<times> bool
     \<Rightarrow> (SWEET_PARSER \<times> TEXT_EFFECTS \<times> bool \<times> bool \<times> bool) result" where
  "parseTextEffects_item tok st me saw =
     (case saw of (sawFont, sawAt, sawVis) \<Rightarrow>
        if tok \<noteq> T_LEFT then Inl (Expecting_tok T_LEFT)
        else
          (case NextTok st of (tok1, st1) \<Rightarrow>
             if tok1 = T_at then
               (if sawAt then Inl (Duplicate_tok tok1)
                else bindE (parseAt st1 (te_pos me) (te_angle me)) (\<lambda>(st2, pos, angle).
                       Inr (st2, me\<lparr>te_pos := pos, te_angle := angle\<rparr>, sawFont, True, sawVis)))
             else if tok1 = T_font then
               (if sawFont then Inl (Duplicate_tok tok1)
                else bindE (parseFont st1 (te_font me)) (\<lambda>(st2, f).
                       Inr (st2, me\<lparr>te_font := f\<rparr>, True, sawAt, sawVis)))
             else if tok1 = T_visible then
               (if sawVis then Inl (Duplicate_raw 1)
                else bindE (visible_clause st1) (\<lambda>(st2, b).
                       Inr (st2, me\<lparr>te_isVisible := b\<rparr>, sawFont, sawAt, True)))
             else Inl (Expecting_text ''at|font|visible'')))"

lemma parseTextEffects_item_le:
  "parseTextEffects_item tok st me saw = Inr (st1, r) \<Longrightarrow>
     length (toks st1) \<le> length (toks st) \<and> tok \<noteq> T_EOF"
  by (auto simp: parseTextEffects_item_def inr_iff
       dest!: parseAt_less parseFont_less visible_clause_less NextTok_le)

function parseTextEffects_loop ::
  "T \<Rightarrow> SWEET_PARSER \<Rightarrow> TEXT_EFFECTS \<Rightarrow> bool \<times> bool \<times> bool
     \<Rightarrow> (SWEET_PARSER \<times> TEXT_EFFECTS) result" where
  "parseTextEffects_loop tok st me saw =
     (if tok = T_RIGHT then Inr (st, me)
      else
        (case parseTextEffects_item tok st me saw of
           Inl e \<Rightarrow> Inl e
         | Inr (st1, me1, saw1) \<Rightarrow>
             (case NextTok st1 of (tok1, st2) \<Rightarrow> parseTextEffects_loop tok1 st2 me1 saw1)))"
  by pat_completeness auto
termination
  by (relation "measure (\<lambda>(tok, st, me, saw).
         2 * length (toks st) + (if tok = T_EOF then 0 else 1))")
     (auto dest!: parseTextEffects_item_le NextTok_measure)

declare parseTextEffects_loop.simps [simp del]

definition parseTextEffects ::
  "SWEET_PARSER \<Rightarrow> TEXT_EFFECTS \<Rightarrow> (SWEET_PARSER \<times> TEXT_EFFECTS) result" where
  "parseTextEffects st me =
     (case NextTok st of (tok, st1) \<Rightarrow>
        if IsSymbol tok then
          (case NextTok st1 of (tok1, st2) \<Rightarrow>
             parseTextEffects_loop tok1 st2 (me\<lparr>te_propName := curText st1\<rparr>)
               (False, False, False))
        else parseTextEffects_loop tok st1 me (False, False, False))"

lemma parseTextEffects_loop_le:
  "parseTextEffects_loop tok st me saw = Inr (st1, r) \<Longrightarrow>
     length (toks st1) \<le> length (toks st)"
proof (induction tok st me saw rule: parseTextEffects_loop.induct)
  case (1 tok st me saw)
  show ?case
  proof (cases "tok = T_RIGHT")
    case True
    with "1.prems" show ?thesis by (simp add: parseTextEffects_loop.simps [of T_RIGHT])
  next
    case False
    with "1.prems" obtain st2 me2 saw2 tok1 st3
      where item: "parseTextEffects_item tok st me saw = Inr (st2, me2, saw2)"
        and nt: "NextTok st2 = (tok1, st3)"
        and rest: "parseTextEffects_loop tok1 st3 me2 saw2 = Inr (st1, r)"
      by (auto simp: parseTextEffects_loop.simps [of tok] split: sum.splits prod.splits)
    from "1.IH" [OF False item refl refl nt [symmetric] rest]
      parseTextEffects_item_le [OF item] NextTok_le [OF nt]
    show ?thesis by simp
  qed
qed

lemma parseTextEffects_less:
  assumes "parseTextEffects st me = Inr (st1, r)"
  shows "length (toks st1) < length (toks st)"
proof -
  obtain tok st0 where nt: "NextTok st = (tok, st0)"
    by (cases "NextTok st") auto
  obtain tok1 st2 where nt1: "NextTok st0 = (tok1, st2)"
    by (cases "NextTok st0") auto
  show ?thesis
  proof (cases "IsSymbol tok")
    case True
    then have "tok \<noteq> T_EOF" by (auto simp: IsSymbol_def)
    with assms nt nt1 True NextTok_less [OF nt] NextTok_le [OF nt1] show ?thesis
      by (auto simp: parseTextEffects_def dest!: parseTextEffects_loop_le)
  next
    case False
    with assms nt
    have loop: "parseTextEffects_loop tok st0 me (False, False, False) = Inr (st1, r)"
      by (simp add: parseTextEffects_def)
    show ?thesis
    proof (cases "tok = T_EOF")
      case True
      with loop show ?thesis
        by (simp add: parseTextEffects_loop.simps [of T_EOF] parseTextEffects_item_def)
    next
      case neof: False
      from parseTextEffects_loop_le [OF loop] NextTok_less [OF nt neof] show ?thesis by simp
    qed
  qed
qed

subsection \<open>Graphic primitives\<close>

text \<open>One turn of the \<^verbatim>\<open>for\<close> loop over the points of a \<^verbatim>\<open>pts\<close> clause.\<close>

definition parsePts_item ::
  "T \<Rightarrow> SWEET_PARSER \<Rightarrow> POINT list \<Rightarrow> (SWEET_PARSER \<times> POINT list) result" where
  "parsePts_item tok st pts =
     (if tok \<noteq> T_LEFT then Inl (Expecting_tok T_LEFT)
      else
        bindE (NeedSYMBOL st) (\<lambda>(tok1, st1).
          if tok1 \<noteq> T_xy then Inl (Expecting_tok T_xy)
          else
            bindE (NeedNUMBER ''x'' st1) (\<lambda>st2.
            bindE (NeedNUMBER ''y'' st2) (\<lambda>st3.
            bindE (NeedRIGHT st3) (\<lambda>st4.
              Inr (st4, pts @ [\<lparr>pt_x = internal (curText st2),
                                 pt_y = internal (curText st3)\<rparr>]))))))"

lemma parsePts_item_le:
  "parsePts_item tok st pts = Inr (st1, r) \<Longrightarrow>
     length (toks st1) \<le> length (toks st) \<and> tok \<noteq> T_EOF"
  by (auto simp: parsePts_item_def inr_iff
       dest!: NeedSYMBOL_less NeedNUMBER_less NeedRIGHT_less)

function parsePts ::
  "SWEET_PARSER \<Rightarrow> POINT list \<Rightarrow> int \<Rightarrow> (SWEET_PARSER \<times> POINT list \<times> int) result" where
  "parsePts st pts count =
     (case NextTok st of (tok, st1) \<Rightarrow>
        if tok = T_RIGHT then Inr (st1, pts, count)
        else
          (case parsePts_item tok st1 pts of
             Inl e \<Rightarrow> Inl e
           | Inr (st2, pts2) \<Rightarrow> parsePts st2 pts2 (count + 1)))"
  by pat_completeness auto
termination
  by (relation "measure (\<lambda>(st, pts, count). length (toks st))")
     (auto dest!: parsePts_item_le NextTok_measure)

declare parsePts.simps [simp del]

lemma parsePts_less:
  "parsePts st pts count = Inr (st1, r) \<Longrightarrow> length (toks st1) < length (toks st)"
proof (induction st pts count rule: parsePts.induct)
  case (1 st pts count)
  obtain tok st0 where nt: "NextTok st = (tok, st0)"
    by (cases "NextTok st") auto
  show ?case
  proof (cases "tok = T_RIGHT")
    case True
    with "1.prems" nt NextTok_less [OF nt] show ?thesis
      by (simp add: parsePts.simps [of st])
  next
    case False
    with "1.prems" nt obtain st2 pts2
      where item: "parsePts_item tok st0 pts = Inr (st2, pts2)"
        and rest: "parsePts st2 pts2 (count + 1) = Inr (st1, r)"
      by (auto simp: parsePts.simps [of st] split: sum.splits prod.splits)
    from "1.IH" [OF nt [symmetric] False item refl rest]
      parsePts_item_le [OF item] NextTok_le [OF nt]
    show ?thesis by simp
  qed
qed

text \<open>
  One turn of the loop of \<^verbatim>\<open>parsePolyLine\<close>; the local state is \<^verbatim>\<open>count\<close>,
  \<^verbatim>\<open>sawWidth\<close> and \<^verbatim>\<open>sawFill\<close>.
\<close>

definition parsePolyLine_item ::
  "T \<Rightarrow> SWEET_PARSER \<Rightarrow> POLY_LINE \<Rightarrow> int \<times> bool \<times> bool
     \<Rightarrow> (SWEET_PARSER \<times> POLY_LINE \<times> int \<times> bool \<times> bool) result" where
  "parsePolyLine_item tok st me saw =
     (case saw of (count, sawWidth, sawFill) \<Rightarrow>
        if tok \<noteq> T_LEFT then Inl (Expecting_tok T_LEFT)
        else
          (case NextTok st of (tok1, st1) \<Rightarrow>
             if tok1 = T_line_width then
               (if sawWidth then Inl (Duplicate_tok tok1)
                else bindE (line_width_clause st1) (\<lambda>(st2, w).
                       Inr (st2, me\<lparr>pl_lineWidth := w\<rparr>, count, True, sawFill)))
             else if tok1 = T_pts then
               (if count \<noteq> 0 then Inl (Duplicate_tok tok1)
                else bindE (parsePts st1 (pl_pts me) count) (\<lambda>(st2, pts, count2).
                       if count2 < 2 then Inl (Expecting_text ''>= 2 pts'')
                       else Inr (st2, me\<lparr>pl_pts := pts\<rparr>, count2, sawWidth, sawFill)))
             else if tok1 = T_fill then
               (if sawFill then Inl (Duplicate_tok tok1)
                else bindE (fill_clause st1) (\<lambda>(st2, f).
                       Inr (st2, me\<lparr>pl_fillType := f\<rparr>, count, sawWidth, True)))
             else Inl (Expecting_text ''pts|line_width|fill'')))"

lemma parsePolyLine_item_le:
  "parsePolyLine_item tok st me saw = Inr (st1, r) \<Longrightarrow>
     length (toks st1) \<le> length (toks st) \<and> tok \<noteq> T_EOF"
  by (auto simp: parsePolyLine_item_def inr_iff
       dest!: line_width_clause_less parsePts_less fill_clause_less NextTok_le)

function parsePolyLine_loop ::
  "SWEET_PARSER \<Rightarrow> POLY_LINE \<Rightarrow> int \<times> bool \<times> bool \<Rightarrow> (SWEET_PARSER \<times> POLY_LINE) result" where
  "parsePolyLine_loop st me saw =
     (case NextTok st of (tok, st1) \<Rightarrow>
        if tok = T_RIGHT then Inr (st1, me)
        else
          (case parsePolyLine_item tok st1 me saw of
             Inl e \<Rightarrow> Inl e
           | Inr (st2, me2, saw2) \<Rightarrow> parsePolyLine_loop st2 me2 saw2))"
  by pat_completeness auto
termination
  by (relation "measure (\<lambda>(st, me, saw). length (toks st))")
     (auto dest!: parsePolyLine_item_le NextTok_measure)

declare parsePolyLine_loop.simps [simp del]

lemma parsePolyLine_loop_less:
  "parsePolyLine_loop st me saw = Inr (st1, r) \<Longrightarrow> length (toks st1) < length (toks st)"
proof (induction st me saw rule: parsePolyLine_loop.induct)
  case (1 st me saw)
  obtain tok st0 where nt: "NextTok st = (tok, st0)"
    by (cases "NextTok st") auto
  show ?case
  proof (cases "tok = T_RIGHT")
    case True
    with "1.prems" nt NextTok_less [OF nt] show ?thesis
      by (simp add: parsePolyLine_loop.simps [of st])
  next
    case False
    with "1.prems" nt obtain st2 me2 saw2
      where item: "parsePolyLine_item tok st0 me saw = Inr (st2, me2, saw2)"
        and rest: "parsePolyLine_loop st2 me2 saw2 = Inr (st1, r)"
      by (auto simp: parsePolyLine_loop.simps [of st] split: sum.splits prod.splits)
    from "1.IH" [OF nt [symmetric] False item refl refl rest]
      parsePolyLine_item_le [OF item] NextTok_le [OF nt]
    show ?thesis by simp
  qed
qed

definition parsePolyLine :: "SWEET_PARSER \<Rightarrow> POLY_LINE \<Rightarrow> (SWEET_PARSER \<times> POLY_LINE) result" where
  "parsePolyLine st me = parsePolyLine_loop st me (0, False, False)"

definition parseBezier :: "SWEET_PARSER \<Rightarrow> POLY_LINE \<Rightarrow> (SWEET_PARSER \<times> POLY_LINE) result" where
  "parseBezier st me = parsePolyLine st me"

definition parseRectangle_item ::
  "T \<Rightarrow> SWEET_PARSER \<Rightarrow> RECTANGLE \<Rightarrow> bool \<times> bool \<times> bool \<times> bool
     \<Rightarrow> (SWEET_PARSER \<times> RECTANGLE \<times> bool \<times> bool \<times> bool \<times> bool) result" where
  "parseRectangle_item tok st me saw =
     (case saw of (sawStart, sawEnd, sawWidth, sawFill) \<Rightarrow>
        if tok \<noteq> T_LEFT then Inl (Expecting_tok T_LEFT)
        else
          (case NextTok st of (tok1, st1) \<Rightarrow>
             if tok1 = T_line_width then
               (if sawWidth then Inl (Duplicate_tok tok1)
                else bindE (line_width_clause st1) (\<lambda>(st2, w).
                       Inr (st2, me\<lparr>rect_lineWidth := w\<rparr>, sawStart, sawEnd, True, sawFill)))
             else if tok1 = T_fill then
               (if sawFill then Inl (Duplicate_tok tok1)
                else bindE (fill_clause st1) (\<lambda>(st2, f).
                       Inr (st2, me\<lparr>rect_fillType := f\<rparr>, sawStart, sawEnd, sawWidth, True)))
             else if tok1 = T_start then
               (if sawStart then Inl (Duplicate_tok tok1)
                else bindE (xy_clause ''x'' ''y'' st1 (rect_start me)) (\<lambda>(st2, pt).
                       Inr (st2, me\<lparr>rect_start := pt\<rparr>, True, sawEnd, sawWidth, sawFill)))
             else if tok1 = T_end then
               (if sawEnd then Inl (Duplicate_tok tok1)
                else bindE (xy_clause ''x'' ''y'' st1 (rect_end me)) (\<lambda>(st2, pt).
                       Inr (st2, me\<lparr>rect_end := pt\<rparr>, sawStart, True, sawWidth, sawFill)))
             else Inl (Expecting_text ''start|end|line_width|fill'')))"

lemma parseRectangle_item_le:
  "parseRectangle_item tok st me saw = Inr (st1, r) \<Longrightarrow>
     length (toks st1) \<le> length (toks st) \<and> tok \<noteq> T_EOF"
  by (auto simp: parseRectangle_item_def inr_iff
       dest!: line_width_clause_less xy_clause_less fill_clause_less NextTok_le)

function parseRectangle_loop ::
  "SWEET_PARSER \<Rightarrow> RECTANGLE \<Rightarrow> bool \<times> bool \<times> bool \<times> bool \<Rightarrow> (SWEET_PARSER \<times> RECTANGLE) result" where
  "parseRectangle_loop st me saw =
     (case NextTok st of (tok, st1) \<Rightarrow>
        if tok = T_RIGHT then Inr (st1, me)
        else
          (case parseRectangle_item tok st1 me saw of
             Inl e \<Rightarrow> Inl e
           | Inr (st2, me2, saw2) \<Rightarrow> parseRectangle_loop st2 me2 saw2))"
  by pat_completeness auto
termination
  by (relation "measure (\<lambda>(st, me, saw). length (toks st))")
     (auto dest!: parseRectangle_item_le NextTok_measure)

declare parseRectangle_loop.simps [simp del]

lemma parseRectangle_loop_less:
  "parseRectangle_loop st me saw = Inr (st1, r) \<Longrightarrow> length (toks st1) < length (toks st)"
proof (induction st me saw rule: parseRectangle_loop.induct)
  case (1 st me saw)
  obtain tok st0 where nt: "NextTok st = (tok, st0)"
    by (cases "NextTok st") auto
  show ?case
  proof (cases "tok = T_RIGHT")
    case True
    with "1.prems" nt NextTok_less [OF nt] show ?thesis
      by (simp add: parseRectangle_loop.simps [of st])
  next
    case False
    with "1.prems" nt obtain st2 me2 saw2
      where item: "parseRectangle_item tok st0 me saw = Inr (st2, me2, saw2)"
        and rest: "parseRectangle_loop st2 me2 saw2 = Inr (st1, r)"
      by (auto simp: parseRectangle_loop.simps [of st] split: sum.splits prod.splits)
    from "1.IH" [OF nt [symmetric] False item refl refl rest]
      parseRectangle_item_le [OF item] NextTok_le [OF nt]
    show ?thesis by simp
  qed
qed

definition parseRectangle :: "SWEET_PARSER \<Rightarrow> RECTANGLE \<Rightarrow> (SWEET_PARSER \<times> RECTANGLE) result" where
  "parseRectangle st me = parseRectangle_loop st me (False, False, False, False)"

definition parseCircle_item ::
  "T \<Rightarrow> SWEET_PARSER \<Rightarrow> CIRCLE \<Rightarrow> bool \<times> bool \<times> bool \<times> bool
     \<Rightarrow> (SWEET_PARSER \<times> CIRCLE \<times> bool \<times> bool \<times> bool \<times> bool) result" where
  "parseCircle_item tok st me saw =
     (case saw of (sawCenter, sawRadius, sawWidth, sawFill) \<Rightarrow>
        if tok \<noteq> T_LEFT then Inl (Expecting_tok T_LEFT)
        else
          (case NextTok st of (tok1, st1) \<Rightarrow>
             if tok1 = T_line_width then
               (if sawWidth then Inl (Duplicate_tok tok1)
                else bindE (line_width_clause st1) (\<lambda>(st2, w).
                       Inr (st2, me\<lparr>circ_lineWidth := w\<rparr>, sawCenter, sawRadius, True, sawFill)))
             else if tok1 = T_fill then
               (if sawFill then Inl (Duplicate_tok tok1)
                else bindE (fill_clause st1) (\<lambda>(st2, f).
                       Inr (st2, me\<lparr>circ_fillType := f\<rparr>, sawCenter, sawRadius, sawWidth, True)))
             else if tok1 = T_center then
               (if sawCenter then Inl (Duplicate_tok tok1)
                else bindE (xy_clause ''center x'' ''center y'' st1 (circ_center me))
                       (\<lambda>(st2, pt).
                       Inr (st2, me\<lparr>circ_center := pt\<rparr>, True, sawRadius, sawWidth, sawFill)))
             else if tok1 = T_radius then
               (if sawRadius then Inl (Duplicate_tok tok1)
                else bindE (length_clause ''radius'' st1) (\<lambda>(st2, l).
                       Inr (st2, me\<lparr>circ_radius := l\<rparr>, sawCenter, True, sawWidth, sawFill)))
             else Inl (Expecting_text ''center|radius|line_width|fill'')))"

lemma parseCircle_item_le:
  "parseCircle_item tok st me saw = Inr (st1, r) \<Longrightarrow>
     length (toks st1) \<le> length (toks st) \<and> tok \<noteq> T_EOF"
  by (auto simp: parseCircle_item_def inr_iff
       dest!: line_width_clause_less xy_clause_less length_clause_less fill_clause_less
         NextTok_le)

function parseCircle_loop ::
  "SWEET_PARSER \<Rightarrow> CIRCLE \<Rightarrow> bool \<times> bool \<times> bool \<times> bool \<Rightarrow> (SWEET_PARSER \<times> CIRCLE) result" where
  "parseCircle_loop st me saw =
     (case NextTok st of (tok, st1) \<Rightarrow>
        if tok = T_RIGHT then Inr (st1, me)
        else
          (case parseCircle_item tok st1 me saw of
             Inl e \<Rightarrow> Inl e
           | Inr (st2, me2, saw2) \<Rightarrow> parseCircle_loop st2 me2 saw2))"
  by pat_completeness auto
termination
  by (relation "measure (\<lambda>(st, me, saw). length (toks st))")
     (auto dest!: parseCircle_item_le NextTok_measure)

declare parseCircle_loop.simps [simp del]

lemma parseCircle_loop_less:
  "parseCircle_loop st me saw = Inr (st1, r) \<Longrightarrow> length (toks st1) < length (toks st)"
proof (induction st me saw rule: parseCircle_loop.induct)
  case (1 st me saw)
  obtain tok st0 where nt: "NextTok st = (tok, st0)"
    by (cases "NextTok st") auto
  show ?case
  proof (cases "tok = T_RIGHT")
    case True
    with "1.prems" nt NextTok_less [OF nt] show ?thesis
      by (simp add: parseCircle_loop.simps [of st])
  next
    case False
    with "1.prems" nt obtain st2 me2 saw2
      where item: "parseCircle_item tok st0 me saw = Inr (st2, me2, saw2)"
        and rest: "parseCircle_loop st2 me2 saw2 = Inr (st1, r)"
      by (auto simp: parseCircle_loop.simps [of st] split: sum.splits prod.splits)
    from "1.IH" [OF nt [symmetric] False item refl refl rest]
      parseCircle_item_le [OF item] NextTok_le [OF nt]
    show ?thesis by simp
  qed
qed

definition parseCircle :: "SWEET_PARSER \<Rightarrow> CIRCLE \<Rightarrow> (SWEET_PARSER \<times> CIRCLE) result" where
  "parseCircle st me = parseCircle_loop st me (False, False, False, False)"

text \<open>The flags of \<^verbatim>\<open>parseArc\<close>, in the order of their declarations.\<close>

type_synonym arc_saw = "bool \<times> bool \<times> bool \<times> bool \<times> bool \<times> bool"

definition parseArc_item ::
  "T \<Rightarrow> SWEET_PARSER \<Rightarrow> ARC \<Rightarrow> arc_saw \<Rightarrow> (SWEET_PARSER \<times> ARC \<times> arc_saw) result" where
  "parseArc_item tok st me saw =
     (case saw of (sawPos, sawStart, sawEnd, sawRadius, sawWidth, sawFill) \<Rightarrow>
        if tok \<noteq> T_LEFT then Inl (Expecting_tok T_LEFT)
        else
          (case NextTok st of (tok1, st1) \<Rightarrow>
             if tok1 = T_line_width then
               (if sawWidth then Inl (Duplicate_tok tok1)
                else bindE (line_width_clause st1) (\<lambda>(st2, w).
                       Inr (st2, me\<lparr>arc_lineWidth := w\<rparr>,
                            sawPos, sawStart, sawEnd, sawRadius, True, sawFill)))
             else if tok1 = T_fill then
               (if sawFill then Inl (Duplicate_tok tok1)
                else bindE (fill_clause st1) (\<lambda>(st2, f).
                       Inr (st2, me\<lparr>arc_fillType := f\<rparr>,
                            sawPos, sawStart, sawEnd, sawRadius, sawWidth, True)))
             else if tok1 = T_pos then
               (if sawPos then Inl (Duplicate_tok tok1)
                else bindE (xy_clause ''pos x'' ''pos y'' st1 (arc_pos me)) (\<lambda>(st2, pt).
                       Inr (st2, me\<lparr>arc_pos := pt\<rparr>,
                            True, sawStart, sawEnd, sawRadius, sawWidth, sawFill)))
             else if tok1 = T_radius then
               (if sawRadius then Inl (Duplicate_tok tok1)
                else bindE (length_clause ''radius'' st1) (\<lambda>(st2, l).
                       Inr (st2, me\<lparr>arc_radius := l\<rparr>,
                            sawPos, sawStart, sawEnd, True, sawWidth, sawFill)))
             else if tok1 = T_start then
               (if sawStart then Inl (Duplicate_tok tok1)
                else bindE (xy_clause ''start x'' ''start y'' st1 (arc_start me)) (\<lambda>(st2, pt).
                       Inr (st2, me\<lparr>arc_start := pt\<rparr>,
                            sawPos, True, sawEnd, sawRadius, sawWidth, sawFill)))
             else if tok1 = T_end then
               (if sawEnd then Inl (Duplicate_tok tok1)
                else bindE (xy_clause ''end x'' ''end y'' st1 (arc_end me)) (\<lambda>(st2, pt).
                       Inr (st2, me\<lparr>arc_end := pt\<rparr>,
                            sawPos, sawStart, True, sawRadius, sawWidth, sawFill)))
             else Inl (Expecting_text ''center|radius|line_width|fill'')))"

lemma parseArc_item_le:
  "parseArc_item tok st me saw = Inr (st1, r) \<Longrightarrow>
     length (toks st1) \<le> length (toks st) \<and> tok \<noteq> T_EOF"
  by (auto simp: parseArc_item_def inr_iff
       dest!: line_width_clause_less xy_clause_less length_clause_less fill_clause_less
         NextTok_le)

function parseArc_loop ::
  "SWEET_PARSER \<Rightarrow> ARC \<Rightarrow> arc_saw \<Rightarrow> (SWEET_PARSER \<times> ARC) result" where
  "parseArc_loop st me saw =
     (case NextTok st of (tok, st1) \<Rightarrow>
        if tok = T_RIGHT then Inr (st1, me)
        else
          (case parseArc_item tok st1 me saw of
             Inl e \<Rightarrow> Inl e
           | Inr (st2, me2, saw2) \<Rightarrow> parseArc_loop st2 me2 saw2))"
  by pat_completeness auto
termination
  by (relation "measure (\<lambda>(st, me, saw). length (toks st))")
     (auto dest!: parseArc_item_le NextTok_measure)

declare parseArc_loop.simps [simp del]

lemma parseArc_loop_less:
  "parseArc_loop st me saw = Inr (st1, r) \<Longrightarrow> length (toks st1) < length (toks st)"
proof (induction st me saw rule: parseArc_loop.induct)
  case (1 st me saw)
  obtain tok st0 where nt: "NextTok st = (tok, st0)"
    by (cases "NextTok st") auto
  show ?case
  proof (cases "tok = T_RIGHT")
    case True
    with "1.prems" nt NextTok_less [OF nt] show ?thesis
      by (simp add: parseArc_loop.simps [of st])
  next
    case False
    with "1.prems" nt obtain st2 me2 saw2
      where item: "parseArc_item tok st0 me saw = Inr (st2, me2, saw2)"
        and rest: "parseArc_loop st2 me2 saw2 = Inr (st1, r)"
      by (auto simp: parseArc_loop.simps [of st] split: sum.splits prod.splits)
    from "1.IH" [OF nt [symmetric] False item refl refl rest]
      parseArc_item_le [OF item] NextTok_le [OF nt]
    show ?thesis by simp
  qed
qed

definition parseArc :: "SWEET_PARSER \<Rightarrow> ARC \<Rightarrow> (SWEET_PARSER \<times> ARC) result" where
  "parseArc st me = parseArc_loop st me (False, False, False, False, False, False)"

text \<open>The two tokens of a \<^verbatim>\<open>justify\<close> clause of \<^verbatim>\<open>parseText\<close>, and its closing delimiter.\<close>

definition justify_clause :: "SWEET_PARSER \<Rightarrow> (SWEET_PARSER \<times> T \<times> T) result" where
  "justify_clause st =
     bindE (NeedSYMBOL st) (\<lambda>(tok, st1).
       if tok = T_center \<or> tok = T_right \<or> tok = T_left then
         bindE (NeedSYMBOL st1) (\<lambda>(tok1, st2).
           if tok1 = T_center \<or> tok1 = T_top \<or> tok1 = T_bottom then
             bindE (NeedRIGHT st2) (\<lambda>st3. Inr (st3, tok, tok1))
           else Inl (Expecting_text ''center|top|bottom''))
       else Inl (Expecting_text ''center|right|left''))"

lemma justify_clause_less:
  "justify_clause st = Inr (st1, r) \<Longrightarrow> length (toks st1) < length (toks st)"
  by (auto simp: justify_clause_def inr_iff dest!: NeedSYMBOL_less NeedRIGHT_less)

text \<open>The flags of \<^verbatim>\<open>parseText\<close>: at, fill, font, visible, justify.\<close>

type_synonym text_saw = "bool \<times> bool \<times> bool \<times> bool \<times> bool"

definition parseText_item ::
  "T \<Rightarrow> SWEET_PARSER \<Rightarrow> GR_TEXT \<Rightarrow> text_saw \<Rightarrow> (SWEET_PARSER \<times> GR_TEXT \<times> text_saw) result"
  where
  "parseText_item tok st me saw =
     (case saw of (sawAt, sawFill, sawFont, sawVis, sawJust) \<Rightarrow>
        if tok \<noteq> T_LEFT then Inl (Expecting_tok T_LEFT)
        else
          (case NextTok st of (tok1, st1) \<Rightarrow>
             if tok1 = T_at then
               (if sawAt then Inl (Duplicate_tok tok1)
                else bindE (parseAt st1 (txt_pos me) (txt_angle me)) (\<lambda>(st2, pos, angle).
                       Inr (st2, me\<lparr>txt_pos := pos, txt_angle := angle\<rparr>,
                            True, sawFill, sawFont, sawVis, sawJust)))
             else if tok1 = T_fill then
               (if sawFill then Inl (Duplicate_tok tok1)
                else bindE (fill_clause st1) (\<lambda>(st2, f).
                       Inr (st2, me\<lparr>txt_fillType := f\<rparr>,
                            sawAt, True, sawFont, sawVis, sawJust)))
             else if tok1 = T_justify then
               (if sawJust then Inl (Duplicate_tok tok1)
                else bindE (justify_clause st1) (\<lambda>(st2, h, v).
                       Inr (st2, me\<lparr>txt_hjustify := h, txt_vjustify := v\<rparr>,
                            sawAt, sawFill, sawFont, sawVis, True)))
             else if tok1 = T_visible then
               (if sawVis then Inl (Duplicate_tok tok1)
                else bindE (visible_clause st1) (\<lambda>(st2, b).
                       Inr (st2, me\<lparr>txt_isVisible := b\<rparr>,
                            sawAt, sawFill, sawFont, True, sawJust)))
             else if tok1 = T_font then
               (if sawFont then Inl (Duplicate_tok tok1)
                else bindE (parseFont st1 (txt_font me)) (\<lambda>(st2, f).
                       Inr (st2, me\<lparr>txt_font := f\<rparr>,
                            sawAt, sawFill, True, sawVis, sawJust)))
             else Inl (Expecting_text ''at|justify|font|visible|fill'')))"

lemma parseText_item_le:
  "parseText_item tok st me saw = Inr (st1, r) \<Longrightarrow>
     length (toks st1) \<le> length (toks st) \<and> tok \<noteq> T_EOF"
  by (auto simp: parseText_item_def inr_iff
       dest!: parseAt_less fill_clause_less justify_clause_less visible_clause_less
         parseFont_less NextTok_le)

function parseText_loop ::
  "SWEET_PARSER \<Rightarrow> GR_TEXT \<Rightarrow> text_saw \<Rightarrow> (SWEET_PARSER \<times> GR_TEXT) result" where
  "parseText_loop st me saw =
     (case NextTok st of (tok, st1) \<Rightarrow>
        if tok = T_RIGHT then Inr (st1, me)
        else
          (case parseText_item tok st1 me saw of
             Inl e \<Rightarrow> Inl e
           | Inr (st2, me2, saw2) \<Rightarrow> parseText_loop st2 me2 saw2))"
  by pat_completeness auto
termination
  by (relation "measure (\<lambda>(st, me, saw). length (toks st))")
     (auto dest!: parseText_item_le NextTok_measure)

declare parseText_loop.simps [simp del]

lemma parseText_loop_less:
  "parseText_loop st me saw = Inr (st1, r) \<Longrightarrow> length (toks st1) < length (toks st)"
proof (induction st me saw rule: parseText_loop.induct)
  case (1 st me saw)
  obtain tok st0 where nt: "NextTok st = (tok, st0)"
    by (cases "NextTok st") auto
  show ?case
  proof (cases "tok = T_RIGHT")
    case True
    with "1.prems" nt NextTok_less [OF nt] show ?thesis
      by (simp add: parseText_loop.simps [of st])
  next
    case False
    with "1.prems" nt obtain st2 me2 saw2
      where item: "parseText_item tok st0 me saw = Inr (st2, me2, saw2)"
        and rest: "parseText_loop st2 me2 saw2 = Inr (st1, r)"
      by (auto simp: parseText_loop.simps [of st] split: sum.splits prod.splits)
    from "1.IH" [OF nt [symmetric] False item refl refl rest]
      parseText_item_le [OF item] NextTok_le [OF nt]
    show ?thesis by simp
  qed
qed

definition parseText :: "SWEET_PARSER \<Rightarrow> GR_TEXT \<Rightarrow> (SWEET_PARSER \<times> GR_TEXT) result" where
  "parseText st me =
     bindE (NeedSYMBOLorNUMBER st) (\<lambda>(tok, st1).
       parseText_loop st1 (me\<lparr>txt_text := curText st1\<rparr>) (False, False, False, False, False))"

lemma parsePolyLine_less:
  "parsePolyLine st me = Inr (st1, r) \<Longrightarrow> length (toks st1) < length (toks st)"
  unfolding parsePolyLine_def by (rule parsePolyLine_loop_less)

lemma parseBezier_less:
  "parseBezier st me = Inr (st1, r) \<Longrightarrow> length (toks st1) < length (toks st)"
  unfolding parseBezier_def by (rule parsePolyLine_less)

lemma parseRectangle_less:
  "parseRectangle st me = Inr (st1, r) \<Longrightarrow> length (toks st1) < length (toks st)"
  unfolding parseRectangle_def by (rule parseRectangle_loop_less)

lemma parseCircle_less:
  "parseCircle st me = Inr (st1, r) \<Longrightarrow> length (toks st1) < length (toks st)"
  unfolding parseCircle_def by (rule parseCircle_loop_less)

lemma parseArc_less:
  "parseArc st me = Inr (st1, r) \<Longrightarrow> length (toks st1) < length (toks st)"
  unfolding parseArc_def by (rule parseArc_loop_less)

lemma parseText_less:
  "parseText st me = Inr (st1, r) \<Longrightarrow> length (toks st1) < length (toks st)"
  by (auto simp: parseText_def inr_iff dest!: NeedSYMBOLorNUMBER_less parseText_loop_less)


subsection \<open>The part-level state\<close>

datatype PartBit =
    PARSED | EXTENDS | VALUE | ANCHOR | REFERENCE | FOOTPRINT | DATASHEET | MODEL | KEYWORDS

fun PartBit_pos :: "PartBit \<Rightarrow> nat" where
  "PartBit_pos PARSED = 0"
| "PartBit_pos EXTENDS = 1"
| "PartBit_pos VALUE = 2"
| "PartBit_pos ANCHOR = 3"
| "PartBit_pos REFERENCE = 4"
| "PartBit_pos FOOTPRINT = 5"
| "PartBit_pos DATASHEET = 6"
| "PartBit_pos MODEL = 7"
| "PartBit_pos KEYWORDS = 8"

definition PB :: "PartBit \<Rightarrow> 32 word" where
  "PB oneBitOnly = push_bit (PartBit_pos oneBitOnly) 1"

definition MAX_INHERITANCE_NESTING :: nat where
  "MAX_INHERITANCE_NESTING = 6"

text \<open>
  What the parser takes from its collaborators: the syntax check of an identifier
  (\<^verbatim>\<open>LPID::Parse\<close>, the offset of the error or \<open>-1\<close>), the library table's lookup, by
  the identifier's text and the owner of the part (\<open>None\<close> when the table does not
  resolve the identifier), and the freshly constructed node of each class.
\<close>

record ENV =
  LPID_Parse :: "string \<Rightarrow> int"
  LookupPart :: "string \<Rightarrow> nat \<Rightarrow> addr option"
  new_POLY_LINE :: POLY_LINE
  new_BEZIER :: POLY_LINE
  new_RECTANGLE :: RECTANGLE
  new_CIRCLE :: CIRCLE
  new_ARC :: ARC
  new_GR_TEXT :: GR_TEXT
  new_PROPERTY :: PROPERTY
  new_PIN :: PIN

definition empty_FONT :: FONT where
  "empty_FONT = \<lparr>font_name = [], font_size = \<lparr>size_height = 0, size_width = 0\<rparr>,
                  font_italic = False, font_bold = False\<rparr>"

definition empty_PROPERTY :: PROPERTY where
  "empty_PROPERTY =
     \<lparr>prop_name = [], prop_text = [],
      prop_effects = \<lparr>te_propName = [], te_pos = \<lparr>pt_x = 0, pt_y = 0\<rparr>,
                      te_angle = Finite 0 0, te_font = empty_FONT,
                      te_isVisible = False\<rparr>\<rparr>"

text \<open>
  Modelled from the spec: \<^verbatim>\<open>PART::clear\<close> is not part of the source. "\<^verbatim>\<open>Parse\<close> clears
  all fields unconditionally before repopulating": every field that a parse fills is
  emptied; the owning library of the part stays.
\<close>

definition PART_clear :: "PART \<Rightarrow> PART" where
  "PART_clear me =
     \<lparr>part_owner = part_owner me, part_extends = None, part_base = None,
      part_anchor = \<lparr>pt_x = 0, pt_y = 0\<rparr>,
      part_reference = empty_PROPERTY, part_value = empty_PROPERTY,
      part_footprint = empty_PROPERTY, part_datasheet = empty_PROPERTY,
      part_model = empty_PROPERTY, part_properties = [], part_graphics = [],
      part_pins = [], part_contains = 0\<rparr>"

text \<open>
  Modelled from the spec: \<^verbatim>\<open>PART::inherit\<close> is not part of the source. "Copy the base's
  fields into the part under construction": the anchor, the text fields, the
  properties, graphics and pins and the clauses-seen word of the base; the part keeps
  its owner, its own identifier of the base and its back-reference.
\<close>

definition PART_inherit :: "PART \<Rightarrow> PART \<Rightarrow> PART" where
  "PART_inherit me other =
     me\<lparr>part_anchor := part_anchor other,
        part_reference := part_reference other, part_value := part_value other,
        part_footprint := part_footprint other, part_datasheet := part_datasheet other,
        part_model := part_model other, part_properties := part_properties other,
        part_graphics := part_graphics other, part_pins := part_pins other,
        part_contains := part_contains other\<rparr>"

subsection \<open>The inheritance resolver\<close>

text \<open>
  The \<^verbatim>\<open>for\<close> loop of \<^verbatim>\<open>parseExtends\<close> over the \<^verbatim>\<open>base\<close> pointers: it answers the
  value of \<^verbatim>\<open>extendsDepth\<close> at its exit, or the exception. \<open>None\<close> is the null pointer.
\<close>

function ancestor_loop :: "store \<Rightarrow> addr \<Rightarrow> addr option \<Rightarrow> nat \<Rightarrow> nat result" where
  "ancestor_loop parts me ancestor extendsDepth =
     (case ancestor of
        None \<Rightarrow> Inr extendsDepth
      | Some a \<Rightarrow>
          if extendsDepth < MAX_INHERITANCE_NESTING then
            (if a = me then Inl Self_ancestor
             else ancestor_loop parts me (part_base (parts a)) (extendsDepth + 1))
          else Inr extendsDepth)"
  by pat_completeness auto
termination
  by (relation "measure (\<lambda>(parts, me, ancestor, extendsDepth).
         MAX_INHERITANCE_NESTING - extendsDepth)") auto

declare ancestor_loop.simps [simp del]

text \<open>
  \<^verbatim>\<open>parseExtends\<close>. The part under construction is the object at the address \<open>me\<close>
  of the store. A lookup that does not resolve the identifier fails, as the
  specification has it ("may fail if unresolved"): the exception is \<open>Lookup_failed\<close>.
\<close>

definition parseExtends ::
  "ENV \<Rightarrow> SWEET_PARSER \<Rightarrow> store \<Rightarrow> addr \<Rightarrow> (SWEET_PARSER \<times> store) result" where
  "parseExtends libs st parts me =
     (if contains st AND PB EXTENDS \<noteq> 0 then Inl (Duplicate_tok T_extends)
      else
        bindE (NeedSYMBOLorNUMBER st) (\<lambda>(tok, st1).
          let parts1 = parts(me := (parts me)\<lparr>part_extends := Some (curText st1)\<rparr>);
              offset = LPID_Parse libs (curText st1)
          in if offset > - 1 then Inl (Invalid_LPID offset)
             else
               (case LookupPart libs (curText st1) (part_owner (parts1 me)) of
                  None \<Rightarrow> Inl Lookup_failed
                | Some base \<Rightarrow>
                    bindE (ancestor_loop parts1 me (Some base) 0) (\<lambda>extendsDepth.
                      if extendsDepth = MAX_INHERITANCE_NESTING then Inl Depth_exceeded
                      else
                        Inr (st1\<lparr>contains := contains st1 OR PB EXTENDS\<rparr>,
                             parts1(me := (PART_inherit (parts1 me) (parts1 base))
                                            \<lparr>part_base := Some base\<rparr>))))))"

subsection \<open>The dispatcher\<close>

text \<open>
  The statements that follow the duplicate check in each of the cases \<^verbatim>\<open>T_reference\<close>,
  \<^verbatim>\<open>T_value\<close>, \<^verbatim>\<open>T_footprint\<close>, \<^verbatim>\<open>T_datasheet\<close> and \<^verbatim>\<open>T_model\<close>, and the name of a
  property: the text, then either the closing delimiter or an \<^verbatim>\<open>effects\<close> block.
\<close>

definition field_clause ::
  "SWEET_PARSER \<Rightarrow> PROPERTY \<Rightarrow> (SWEET_PARSER \<times> PROPERTY) result" where
  "field_clause st f =
     bindE (NeedSYMBOLorNUMBER st) (\<lambda>(tok, st1).
       let f1 = f\<lparr>prop_text := curText st1\<rparr>
       in case NextTok st1 of (tok1, st2) \<Rightarrow>
            if tok1 = T_LEFT then
              (case NextTok st2 of (tok2, st3) \<Rightarrow>
                 if tok2 \<noteq> T_effects then Inl (Expecting_tok T_effects)
                 else
                   bindE (parseTextEffects st3 (prop_effects f1)) (\<lambda>(st4, e).
                   bindE (NeedRIGHT st4) (\<lambda>st5. Inr (st5, f1\<lparr>prop_effects := e\<rparr>))))
            else if tok1 \<noteq> T_RIGHT then Inl (Expecting_text '') | effects'')
            else Inr (st2, f1))"

lemma field_clause_less:
  "field_clause st f = Inr (st1, r) \<Longrightarrow> length (toks st1) < length (toks st)"
  by (auto simp: field_clause_def inr_iff
       dest!: NeedSYMBOLorNUMBER_less parseTextEffects_less NeedRIGHT_less NextTok_le)

definition Parse_expecting :: string where
  "Parse_expecting =
     ''anchor|value|footprint|model|keywords|alternates'' @ [CHR 0x0A] @
     ''|property'' @ [CHR 0x0A] @
     ''  |property_del'' @ [CHR 0x0A] @
     ''|pin'' @ [CHR 0x0A] @
     ''  |pin_merge|pin_swap|pin_renum|pin_rename|route_pin_swap'' @ [CHR 0x0A] @
     ''|polyline|line|rectangle|circle|arc|bezier|text''"

text \<open>
  The \<^verbatim>\<open>switch\<close> of \<^verbatim>\<open>Parse\<close> on one clause keyword. A node is built by its parser and
  then appended, where the source appends the new node and fills it in place: the two
  differ only in what is left behind when an exception is thrown.
\<close>

definition Parse_clause ::
  "ENV \<Rightarrow> T \<Rightarrow> SWEET_PARSER \<Rightarrow> PART \<Rightarrow> (SWEET_PARSER \<times> PART) result" where
  "Parse_clause libs tok st me =
     (if tok = T_anchor then
        (if contains st AND PB ANCHOR \<noteq> 0 then Inl (Duplicate_tok tok)
         else
           bindE (NeedNUMBER ''anchor x'' st) (\<lambda>st1.
           bindE (NeedNUMBER ''anchor y'' st1) (\<lambda>st2.
             Inr (st2\<lparr>contains := contains st2 OR PB ANCHOR\<rparr>,
                  me\<lparr>part_anchor := (part_anchor me)\<lparr>pt_x := internal (curText st1),
                                                     pt_y := internal (curText st2)\<rparr>\<rparr>))))
      else if tok = T_line \<or> tok = T_polyline then
        bindE (parsePolyLine st (new_POLY_LINE libs)) (\<lambda>(st1, pl).
          Inr (st1, me\<lparr>part_graphics := part_graphics me @ [G_POLY_LINE pl]\<rparr>))
      else if tok = T_rectangle then
        bindE (parseRectangle st (new_RECTANGLE libs)) (\<lambda>(st1, rect).
          Inr (st1, me\<lparr>part_graphics := part_graphics me @ [G_RECTANGLE rect]\<rparr>))
      else if tok = T_circle then
        bindE (parseCircle st (new_CIRCLE libs)) (\<lambda>(st1, circ).
          Inr (st1, me\<lparr>part_graphics := part_graphics me @ [G_CIRCLE circ]\<rparr>))
      else if tok = T_arc then
        bindE (parseArc st (new_ARC libs)) (\<lambda>(st1, arc).
          Inr (st1, me\<lparr>part_graphics := part_graphics me @ [G_ARC arc]\<rparr>))
      else if tok = T_bezier then
        bindE (parseBezier st (new_BEZIER libs)) (\<lambda>(st1, bezier).
          Inr (st1, me\<lparr>part_graphics := part_graphics me @ [G_BEZIER bezier]\<rparr>))
      else if tok = T_text then
        bindE (parseText st (new_GR_TEXT libs)) (\<lambda>(st1, text).
          Inr (st1, me\<lparr>part_graphics := part_graphics me @ [G_TEXT text]\<rparr>))
      else if tok = T_reference then
        (if contains st AND PB REFERENCE \<noteq> 0 then Inl (Duplicate_tok tok)
         else
           bindE (field_clause (st\<lparr>contains := contains st OR PB REFERENCE\<rparr>)
                    (part_reference me))
             (\<lambda>(st1, f). Inr (st1, me\<lparr>part_reference := f\<rparr>)))
      else if tok = T_value then
        (if contains st AND PB VALUE \<noteq> 0 then Inl (Duplicate_tok tok)
         else
           bindE (field_clause (st\<lparr>contains := contains st OR PB VALUE\<rparr>) (part_value me))
             (\<lambda>(st1, f). Inr (st1, me\<lparr>part_value := f\<rparr>)))
      else if tok = T_footprint then
        (if contains st AND PB FOOTPRINT \<noteq> 0 then Inl (Duplicate_tok tok)
         else
           bindE (field_clause (st\<lparr>contains := contains st OR PB FOOTPRINT\<rparr>)
                    (part_footprint me))
             (\<lambda>(st1, f). Inr (st1, me\<lparr>part_footprint := f\<rparr>)))
      else if tok = T_datasheet then
        (if contains st AND PB MODEL \<noteq> 0 then Inl (Duplicate_tok tok)
         else
           bindE (field_clause (st\<lparr>contains := contains st OR PB MODEL\<rparr>)
                    (part_datasheet me))
             (\<lambda>(st1, f). Inr (st1, me\<lparr>part_datasheet := f\<rparr>)))
      else if tok = T_model then
        (if contains st AND PB MODEL \<noteq> 0 then Inl (Duplicate_tok tok)
         else
           bindE (field_clause (st\<lparr>contains := contains st OR PB MODEL\<rparr>) (part_model me))
             (\<lambda>(st1, f). Inr (st1, me\<lparr>part_model := f\<rparr>)))
      else if tok = T_property then
        bindE (NeedSYMBOLorNUMBER st) (\<lambda>(tok1, st1).
        bindE (field_clause st1 ((new_PROPERTY libs)\<lparr>prop_name := curText st1\<rparr>))
          (\<lambda>(st2, property).
             Inr (st2, me\<lparr>part_properties := part_properties me @ [property]\<rparr>)))
      else if tok = T_pin then
        bindE (parsePin st (new_PIN libs)) (\<lambda>(st1, pin).
          Inr (st1, me\<lparr>part_pins := part_pins me @ [pin]\<rparr>))
      else Inl (Expecting_text Parse_expecting))"

lemma field_clause_contains_less:
  "field_clause (st\<lparr>contains := c\<rparr>) f = Inr (st1, r) \<Longrightarrow>
     length (toks st1) < length (toks st)"
  by (drule field_clause_less) simp

lemma Parse_clause_le:
  "Parse_clause libs tok st me = Inr (st1, r) \<Longrightarrow> length (toks st1) < length (toks st)"
  by (auto simp: Parse_clause_def inr_iff
       dest!: NeedNUMBER_less parsePolyLine_less parseRectangle_less parseCircle_less
         parseArc_less parseBezier_less parseText_less field_clause_contains_less
         field_clause_less NeedSYMBOLorNUMBER_less parsePin_less)

text \<open>
  The \<^verbatim>\<open>for\<close> loop of \<^verbatim>\<open>Parse\<close>, entered with the token in hand.
\<close>

function Parse_loop ::
  "ENV \<Rightarrow> T \<Rightarrow> SWEET_PARSER \<Rightarrow> PART \<Rightarrow> (SWEET_PARSER \<times> PART) result" where
  "Parse_loop libs tok st me =
     (if tok = T_RIGHT then Inr (st, me)
      else if tok = T_EOF then Inl (Unexpected_tok T_EOF)
      else
        (case (if tok = T_LEFT then NextTok st else (tok, st)) of (tok1, st1) \<Rightarrow>
           (case Parse_clause libs tok1 st1 me of
              Inl e \<Rightarrow> Inl e
            | Inr (st2, me2) \<Rightarrow>
                (case NextTok st2 of (tok2, st3) \<Rightarrow> Parse_loop libs tok2 st3 me2))))"
  by pat_completeness auto
termination
  by (relation "measure (\<lambda>(libs, tok, st, me).
         2 * length (toks st) + (if tok = T_EOF then 0 else 1))")
     (auto dest!: Parse_clause_le NextTok_measure split: if_splits)

declare Parse_loop.simps [simp del]

definition Parse ::
  "ENV \<Rightarrow> SWEET_PARSER \<Rightarrow> store \<Rightarrow> addr \<Rightarrow> (SWEET_PARSER \<times> store) result" where
  "Parse aTable st parts me =
     (let parts0 = parts(me := PART_clear (parts me))
      in bindE (NeedLEFT st) (\<lambda>st1.
           case NextTok st1 of (tok, st2) \<Rightarrow>
             if tok \<noteq> T_part then Inl (Expecting_tok T_part)
             else
               bindE (NeedSYMBOLorNUMBER st2) (\<lambda>(hint, st3).
                 case NextTok st3 of (tok1, st4) \<Rightarrow>
                   bindE (if tok1 = T_extends then
                            bindE (parseExtends aTable st4 parts0 me) (\<lambda>(st5, parts1).
                              case NextTok st5 of (tok2, st6) \<Rightarrow> Inr (tok2, st6, parts1))
                          else Inr (tok1, st4, parts0))
                     (\<lambda>(tok3, st7, parts2).
                        bindE (Parse_loop aTable tok3 st7 (parts2 me)) (\<lambda>(st8, p).
                          let c = contains st8 OR PB PARSED
                          in Inr (st8\<lparr>contains := c\<rparr>,
                                  parts2(me := p\<lparr>part_contains :=
                                                    part_contains p OR c\<rparr>)))))))"


subsection \<open>Example inputs\<close>

definition example_PIN :: PIN where
  "example_PIN =
     \<lparr>pin_pos = \<lparr>pt_x = 0, pt_y = 0\<rparr>, pin_angle = Finite 0 0, pin_length = 0,
      pin_signal = \<lparr>pintext_text = [], pintext_font = empty_FONT, pintext_isVisible = True\<rparr>,
      pin_padname = \<lparr>pintext_text = [], pintext_font = empty_FONT, pintext_isVisible = True\<rparr>,
      pin_isVisible = True, pin_connectionType = T_input, pin_shape = T_line\<rparr>"

definition example_POLY_LINE :: POLY_LINE where
  "example_POLY_LINE = \<lparr>pl_lineWidth = Finite 0 0, pl_fillType = T_none, pl_pts = []\<rparr>"

definition example_ARC :: ARC where
  "example_ARC =
     \<lparr>arc_lineWidth = Finite 0 0, arc_fillType = T_none,
      arc_pos = \<lparr>pt_x = 0, pt_y = 0\<rparr>, arc_radius = 0,
      arc_start = \<lparr>pt_x = 0, pt_y = 0\<rparr>, arc_end = \<lparr>pt_x = 0, pt_y = 0\<rparr>\<rparr>"

definition example_PART :: PART where
  "example_PART =
     \<lparr>part_owner = 0, part_extends = None, part_base = None,
      part_anchor = \<lparr>pt_x = 0, pt_y = 0\<rparr>,
      part_reference = empty_PROPERTY, part_value = empty_PROPERTY,
      part_footprint = empty_PROPERTY, part_datasheet = empty_PROPERTY,
      part_model = empty_PROPERTY, part_properties = [], part_graphics = [],
      part_pins = [], part_contains = 0\<rparr>"

text \<open>A library table that resolves the identifier \<open>b0\<close> to the part at address 0.\<close>

definition example_ENV :: ENV where
  "example_ENV =
     \<lparr>LPID_Parse = (\<lambda>s. - 1),
      LookupPart = (\<lambda>s owner. if s = ''b0'' then Some 0 else None),
      new_POLY_LINE = example_POLY_LINE, new_BEZIER = example_POLY_LINE,
      new_RECTANGLE = \<lparr>rect_lineWidth = Finite 0 0, rect_fillType = T_none,
                        rect_start = \<lparr>pt_x = 0, pt_y = 0\<rparr>, rect_end = \<lparr>pt_x = 0, pt_y = 0\<rparr>\<rparr>,
      new_CIRCLE = \<lparr>circ_lineWidth = Finite 0 0, circ_fillType = T_none,
                     circ_center = \<lparr>pt_x = 0, pt_y = 0\<rparr>, circ_radius = 0\<rparr>,
      new_ARC = example_ARC,
      new_GR_TEXT = \<lparr>txt_text = [], txt_pos = \<lparr>pt_x = 0, pt_y = 0\<rparr>,
                      txt_angle = Finite 0 0, txt_fillType = T_none,
                      txt_hjustify = T_center, txt_vjustify = T_center,
                      txt_isVisible = True, txt_font = empty_FONT\<rparr>,
      new_PROPERTY = empty_PROPERTY, new_PIN = example_PIN\<rparr>"

text \<open>A parser on a token list, as its constructor leaves it.\<close>

definition parser_on :: "(T \<times> string) list \<Rightarrow> SWEET_PARSER" where
  "parser_on ts = \<lparr>toks = ts, curText = [], contains = 0\<rparr>"

subsection \<open>Notions the claims are stated with\<close>

text \<open>
  The first \<open>n\<close> parts of the chain of \<^verbatim>\<open>base\<close> pointers that starts at a pointer.
\<close>

fun ancestors :: "store \<Rightarrow> addr option \<Rightarrow> nat \<Rightarrow> addr list" where
  "ancestors parts None n = []"
| "ancestors parts (Some a) 0 = []"
| "ancestors parts (Some a) (Suc n) = a # ancestors parts (part_base (parts a)) n"

text \<open>The tokens of the points \<^verbatim>\<open>(xy X Y)\<close> of a \<^verbatim>\<open>pts\<close> clause, and the points they denote.\<close>

definition xy_tokens :: "(string \<times> string) list \<Rightarrow> (T \<times> string) list" where
  "xy_tokens ps =
     concat (map (\<lambda>(x, y). [(T_LEFT, ''(''), (T_xy, ''xy''), (T_NUMBER, x), (T_NUMBER, y),
                               (T_RIGHT, '')'')]) ps)"

definition points_of :: "(string \<times> string) list \<Rightarrow> POINT list" where
  "points_of ps = map (\<lambda>(x, y). \<lparr>pt_x = internal x, pt_y = internal y\<rparr>) ps"

text \<open>
  A store in which the part at address \<open>a\<close> extends the part at \<open>a + 1\<close>, for every
  \<open>a < n\<close>, and the part at \<open>n\<close> and all later ones extend nothing.
\<close>

definition chain_store :: "nat \<Rightarrow> store" where
  "chain_store n = (\<lambda>a. example_PART\<lparr>part_base := (if a < n then Some (Suc a) else None)\<rparr>)"

text \<open>A store in which the part at address 0 extends itself.\<close>

definition self_store :: store where
  "self_store = (\<lambda>a. example_PART\<lparr>part_base := (if a = 0 then Some 0 else None)\<rparr>)"

text \<open>The tokens of \<^verbatim>\<open>(part R\<close> followed by a body, and of a clause \<^verbatim>\<open>(keyword "text")\<close>.\<close>

definition part_tokens :: "(T \<times> string) list \<Rightarrow> (T \<times> string) list" where
  "part_tokens body = [(T_LEFT, ''(''), (T_part, ''part''), (T_SYMBOL, ''R'')] @ body"

definition field_tokens :: "T \<Rightarrow> string \<Rightarrow> string \<Rightarrow> (T \<times> string) list" where
  "field_tokens kw name v = [(T_LEFT, ''(''), (kw, name), (T_STRING, v), (T_RIGHT, '')'')]"



section \<open>The claims\<close>

lemmas need_defs = NextTok_def NeedLEFT_def NeedRIGHT_def NeedSYMBOL_def
  NeedSYMBOLorNUMBER_def NeedNUMBER_def IsSymbol_def

lemmas eval_defs = parser_on_def part_tokens_def field_tokens_def Parse_def Parse_loop.simps
  Parse_clause_def field_clause_def need_defs Let_def

lemma NextTok_record:
  "NextTok \<lparr>toks = (t, s) # ts, curText = c, contains = k\<rparr>
     = (t, \<lparr>toks = ts, curText = s, contains = k\<rparr>)"
  by (simp add: NextTok_def)

subsection \<open>The bits of \<^verbatim>\<open>contains\<close>\<close>

lemma PB_test: "c AND PB b \<noteq> 0 \<longleftrightarrow> bit c (PartBit_pos b)"
  by (simp add: PB_def push_bit_of_1 and_exp_eq_0_iff_not_bit)

lemma PartBit_pos_less: "PartBit_pos b < 32"
  by (cases b) simp_all

lemma bit_PB: "bit (PB b) n \<longleftrightarrow> n = PartBit_pos b"
proof -
  have "PB b = 2 ^ PartBit_pos b"
    by (simp only: PB_def push_bit_of_1)
  then show ?thesis
    using PartBit_pos_less [of b] by (auto simp: bit_exp_iff possible_bit_word)
qed

lemma PB_nonzero: "PB b \<noteq> 0"
  by (cases b) (simp_all add: PB_def)

lemma PB_set: "(c OR PB b) AND PB b \<noteq> 0"
proof -
  have "bit (c OR PB b) (PartBit_pos b)"
    by (simp add: bit_or_iff bit_PB)
  then show ?thesis
    by (simp only: PB_test)
qed





subsection \<open>The sub-parsers leave \<^verbatim>\<open>contains\<close> alone\<close>




































subsection \<open>What a clause and the loop of \<^verbatim>\<open>Parse\<close> leave unchanged\<close>

lemma Parse_clause_owner:
  "Parse_clause libs tok st me = Inr (st1, me1) \<Longrightarrow> part_owner me1 = part_owner me"
  by (auto simp: Parse_clause_def inr_iff)





lemma Parse_loop_cases:
  assumes "Parse_loop libs tok st me = Inr (st', me')"
  obtains "tok = T_RIGHT" "st' = st" "me' = me"
  | tok1 st1 st2 me2 tok2 st3 where "tok \<noteq> T_RIGHT" "tok \<noteq> T_EOF"
      "(tok1, st1) = (if tok = T_LEFT then NextTok st else (tok, st))"
      "Parse_clause libs tok1 st1 me = Inr (st2, me2)"
      "(tok2, st3) = NextTok st2"
      "Parse_loop libs tok2 st3 me2 = Inr (st', me')"
proof (cases "tok = T_RIGHT")
  case True
  with assms that(1) show ?thesis by (simp add: Parse_loop.simps [of libs T_RIGHT])
next
  case False
  obtain tok1 st1 where a: "(tok1, st1) = (if tok = T_LEFT then NextTok st else (tok, st))"
    by (cases "if tok = T_LEFT then NextTok st else (tok, st)") auto
  from assms False have neof: "tok \<noteq> T_EOF"
    by (auto simp: Parse_loop.simps [of libs tok])
  from assms False neof a [symmetric] obtain st2 me2 where
    b: "Parse_clause libs tok1 st1 me = Inr (st2, me2)"
    by (subst (asm) Parse_loop.simps) (auto split: sum.splits)
  obtain tok2 st3 where c: "(tok2, st3) = NextTok st2"
    by (cases "NextTok st2") auto
  from assms False neof a [symmetric] b c [symmetric]
  have "Parse_loop libs tok2 st3 me2 = Inr (st', me')"
    by (subst (asm) Parse_loop.simps) simp
  with False neof a b c that(2) show ?thesis by blast
qed


lemma Parse_loop_owner:
  "Parse_loop libs tok st me = Inr (st', me') \<Longrightarrow> part_owner me' = part_owner me"
proof (induction libs tok st me rule: Parse_loop.induct)
  case (1 libs tok st me)
  from "1.prems"(1) show ?case
  proof (cases rule: Parse_loop_cases)
    case 1
    then show ?thesis by simp
  next
    case (2 tok1 st1 st2 me2 tok2 st3)
    from "1.IH" [OF 2(1) 2(2) 2(3) 2(4) refl 2(5) 2(6)] Parse_clause_owner [OF 2(4)]
    show ?thesis by simp
  qed
qed

lemma parseExtends_store:
  "parseExtends libs st parts me = Inr (st1, parts1) \<Longrightarrow>
     (\<forall>a. a \<noteq> me \<longrightarrow> parts1 a = parts a) \<and> part_owner (parts1 me) = part_owner (parts me)"
  by (auto simp: parseExtends_def inr_iff PART_inherit_def split: option.splits)

lemma PART_clear_owner: "part_owner (PART_clear p) = part_owner p"
  by (simp add: PART_clear_def)

lemma PART_clear_cong: "part_owner p = part_owner q \<Longrightarrow> PART_clear p = PART_clear q"
  by (simp add: PART_clear_def)

lemma Parse_store:
  assumes "Parse libs st parts me = Inr (st', parts')"
  shows "(\<forall>a. a \<noteq> me \<longrightarrow> parts' a = parts a) \<and> part_owner (parts' me) = part_owner (parts me)
     \<and> part_contains (parts' me) AND PB PARSED \<noteq> 0"
proof -
  have bit: "(x OR (y OR PB PARSED)) AND PB PARSED \<noteq> 0" for x y :: "32 word"
    using PB_set [of "x OR y" PARSED] by (simp add: ac_simps)
  from assms show ?thesis
    by (auto simp: Parse_def inr_iff bit PART_clear_owner
        dest!: parseExtends_store Parse_loop_owner)
qed

lemma Parse_clear:
  "Parse libs st (parts(me := PART_clear (parts me))) me = Parse libs st parts me"
  by (simp add: Parse_def PART_clear_owner PART_clear_def)

subsection \<open>The turns of the loop of \<^verbatim>\<open>Parse\<close>\<close>







subsection \<open>C1: cycles and depth in \<^verbatim>\<open>parseExtends\<close>\<close>

lemma ancestor_loop_ancestors:
  "d + n = MAX_INHERITANCE_NESTING \<Longrightarrow>
   ancestor_loop parts me anc d =
     (if me \<in> set (ancestors parts anc n) then Inl Self_ancestor
      else Inr (d + length (ancestors parts anc n)))"
proof (induction n arbitrary: anc d)
  case 0
  then show ?case
    by (cases anc) (simp_all add: ancestor_loop.simps [of parts me])
next
  case (Suc n)
  show ?case
  proof (cases anc)
    case None
    then show ?thesis by (simp add: ancestor_loop.simps [of parts me])
  next
    case (Some a)
    from Suc.prems have d: "d < MAX_INHERITANCE_NESTING"
      and d': "Suc d + n = MAX_INHERITANCE_NESTING"
      by simp_all
    have step: "ancestor_loop parts me (Some a) d =
       (if a = me then Inl Self_ancestor
        else ancestor_loop parts me (part_base (parts a)) (Suc d))"
      using d by (subst ancestor_loop.simps) simp
    show ?thesis
      unfolding Some step using Suc.IH [OF d', of "part_base (parts a)"] by simp
  qed
qed

lemma ancestors_cong:
  "(\<And>a. part_base (parts' a) = part_base (parts a)) \<Longrightarrow>
   ancestors parts' anc n = ancestors parts anc n"
  by (induction parts anc n rule: ancestors.induct) simp_all

text \<open>
  C1, as the claim states it: whenever the chain of the resolved base contains the part
  under construction, \<^verbatim>\<open>parseExtends\<close> raises the self-reference error. In the store
  \<open>chain_store 6\<close> the chain of the base at address 0 is 0, 1, 2, 3, 4, 5, 6; the part
  under construction is the one at address 6, the seventh of the chain. The loop looks
  at six ancestors only, and the error is the depth error.
\<close>

theorem parseExtends_self_beyond_depth:
  "6 \<in> set (ancestors (chain_store 6) (Some 0) 7) \<and>
   parseExtends example_ENV (parser_on [(T_SYMBOL, ''b0'')]) (chain_store 6) 6
     = Inl Depth_exceeded"
proof
  show "6 \<in> set (ancestors (chain_store 6) (Some 0) 7)"
    by (simp add: numeral_eq_Suc chain_store_def)
  have "ancestor_loop ((chain_store 6)(6 := (chain_store 6 6)\<lparr>part_extends := Some ''b0''\<rparr>))
          6 (Some 0) 0 = Inr 6"
    by (subst ancestor_loop_ancestors [where n = 6])
       (simp_all add: MAX_INHERITANCE_NESTING_def numeral_eq_Suc chain_store_def)
  then show "parseExtends example_ENV (parser_on [(T_SYMBOL, ''b0'')]) (chain_store 6) 6
     = Inl Depth_exceeded"
    by (simp add: parseExtends_def parser_on_def example_ENV_def need_defs
        MAX_INHERITANCE_NESTING_def)
qed

text \<open>
  C1, amended. When the extends clause is not a duplicate, its identifier is well formed
  and the library table resolves it to a base, \<^verbatim>\<open>parseExtends\<close> looks at the first six
  parts of the chain of the base: if the part under construction is one of them the
  self-reference error is raised; otherwise, if the chain has six parts or more, the
  depth error is raised (so for a chain of length 7); otherwise (so for a chain of
  length 5 without the part) the clause succeeds, the fields of the base are inherited
  into the part, the base is recorded and the extends bit is set.
\<close>

theorem parseExtends_walk:
  assumes "k AND PB EXTENDS = 0" and "IsSymbol tok \<or> tok = T_NUMBER"
    and "LPID_Parse libs t = - 1"
    and "LookupPart libs t (part_owner (parts me)) = Some b"
  shows "parseExtends libs \<lparr>toks = (tok, t) # rest, curText = c, contains = k\<rparr> parts me =
     (if me \<in> set (ancestors parts (Some b) MAX_INHERITANCE_NESTING) then Inl Self_ancestor
      else if length (ancestors parts (Some b) MAX_INHERITANCE_NESTING)
                = MAX_INHERITANCE_NESTING
        then Inl Depth_exceeded
      else Inr (\<lparr>toks = rest, curText = t, contains = k OR PB EXTENDS\<rparr>,
                parts(me := (PART_inherit ((parts me)\<lparr>part_extends := Some t\<rparr>) (parts b))
                              \<lparr>part_base := Some b\<rparr>)))"
proof -
  let ?parts1 = "parts(me := (parts me)\<lparr>part_extends := Some t\<rparr>)"
  have anc: "ancestors ?parts1 (Some b) n = ancestors parts (Some b) n" for n
    by (rule ancestors_cong) simp
  have walk: "ancestor_loop ?parts1 me (Some b) 0 =
     (if me \<in> set (ancestors parts (Some b) MAX_INHERITANCE_NESTING) then Inl Self_ancestor
      else Inr (length (ancestors parts (Some b) MAX_INHERITANCE_NESTING)))"
    using ancestor_loop_ancestors [of 0 MAX_INHERITANCE_NESTING ?parts1 me "Some b"]
    by (simp add: anc)
  show ?thesis
  proof (cases "b = me")
    case True
    then have "me \<in> set (ancestors parts (Some b) MAX_INHERITANCE_NESTING)"
      by (simp add: MAX_INHERITANCE_NESTING_def numeral_eq_Suc)
    with assms walk show ?thesis
      by (auto simp: parseExtends_def need_defs Let_def)
  next
    case False
    with assms walk show ?thesis
      by (auto simp: parseExtends_def need_defs Let_def)
  qed
qed

text \<open>
  The three cases at concrete stores: a part that extends itself, a chain of length 7
  and a chain of length 5.
\<close>

theorem parseExtends_walk_witness:
  "parseExtends example_ENV (parser_on [(T_SYMBOL, ''b0'')]) self_store 0 = Inl Self_ancestor \<and>
   parseExtends example_ENV (parser_on [(T_SYMBOL, ''b0'')]) (chain_store 6) 9
     = Inl Depth_exceeded \<and>
   parseExtends example_ENV (parser_on [(T_SYMBOL, ''b0'')]) (chain_store 4) 9
     = Inr (\<lparr>toks = [], curText = ''b0'', contains = PB EXTENDS\<rparr>,
            (chain_store 4)(9 := (PART_inherit ((chain_store 4 9)\<lparr>part_extends := Some ''b0''\<rparr>)
                                    (chain_store 4 0))\<lparr>part_base := Some 0\<rparr>))"
proof -
  have h1: "(0 :: 32 word) AND PB EXTENDS = 0"
    by simp
  have h2: "IsSymbol T_SYMBOL \<or> T_SYMBOL = T_NUMBER"
    by (simp add: IsSymbol_def)
  have h3: "LPID_Parse example_ENV ''b0'' = - 1"
    by (simp add: example_ENV_def)
  have h4: "LookupPart example_ENV ''b0'' owner = Some 0" for owner
    by (simp add: example_ENV_def)
  have a: "ancestors self_store (Some 0) 6 = [0, 0, 0, 0, 0, 0]"
    by (simp add: numeral_eq_Suc self_store_def)
  have b: "ancestors (chain_store 6) (Some 0) 6 = [0, 1, 2, 3, 4, 5]"
    by (simp add: numeral_eq_Suc chain_store_def)
  have c: "ancestors (chain_store 4) (Some 0) 6 = [0, 1, 2, 3, 4]"
    by (simp add: numeral_eq_Suc chain_store_def)
  have six: "MAX_INHERITANCE_NESTING = 6"
    by (simp add: MAX_INHERITANCE_NESTING_def)
  from parseExtends_walk [OF h1 h2 h3 h4, where parts = self_store and me = 0
      and rest = "[]" and c = "[]"]
  have A: "parseExtends example_ENV (parser_on [(T_SYMBOL, ''b0'')]) self_store 0
      = Inl Self_ancestor"
    unfolding six a by (simp add: parser_on_def)
  from parseExtends_walk [OF h1 h2 h3 h4, where parts = "chain_store 6" and me = 9
      and rest = "[]" and c = "[]"]
  have B: "parseExtends example_ENV (parser_on [(T_SYMBOL, ''b0'')]) (chain_store 6) 9
      = Inl Depth_exceeded"
    unfolding six b by (simp add: parser_on_def)
  from parseExtends_walk [OF h1 h2 h3 h4, where parts = "chain_store 4" and me = 9
      and rest = "[]" and c = "[]"]
  have C: "parseExtends example_ENV (parser_on [(T_SYMBOL, ''b0'')]) (chain_store 4) 9
     = Inr (\<lparr>toks = [], curText = ''b0'', contains = PB EXTENDS\<rparr>,
            (chain_store 4)(9 := (PART_inherit ((chain_store 4 9)\<lparr>part_extends := Some ''b0''\<rparr>)
                                    (chain_store 4 0))\<lparr>part_base := Some 0\<rparr>))"
    unfolding six c by (simp add: parser_on_def)
  from A B C show ?thesis by simp
qed

subsection \<open>C2: the unit converter\<close>

text \<open>Rounding to the nearest integer is off by a half at most.\<close>

lemma round_half_even_error:
  assumes "0 < d"
  shows "\<bar>of_int (round_half_even n d) - (of_int n / of_int d :: rat)\<bar> \<le> 1 / 2"
proof -
  define t where "t = n div d"
  define r where "r = n mod d"
  have n: "n = t * d + r"
    by (simp add: t_def r_def)
  have r: "0 \<le> r" "r < d"
    using assms by (simp_all add: r_def)
  have d: "(0 :: rat) < of_int d"
    using assms by simp
  have q: "(of_int n / of_int d :: rat) = of_int t + of_int r / of_int d"
    using d by (simp add: n field_simps)
  consider "2 * r < d" | "d < 2 * r" | "2 * r = d"
    by linarith
  then show ?thesis
  proof cases
    case 1
    then have "round_half_even n d = t"
      by (simp add: round_half_even_def Let_def t_def r_def)
    moreover have "(of_int r / of_int d :: rat) \<le> 1 / 2"
    proof -
      have "(2 :: rat) * of_int r \<le> of_int d"
        using 1 by (metis less_imp_le of_int_le_iff of_int_mult of_int_numeral)
      with d show ?thesis by (simp add: field_simps)
    qed
    moreover have "(0 :: rat) \<le> of_int r / of_int d"
      using r d by simp
    ultimately show ?thesis
      by (simp add: q)
  next
    case 2
    then have "round_half_even n d = t + 1"
      by (simp add: round_half_even_def Let_def t_def r_def)
    moreover have "(1 :: rat) / 2 \<le> of_int r / of_int d"
    proof -
      have "(of_int d :: rat) \<le> 2 * of_int r"
        using 2 by (metis less_imp_le of_int_le_iff of_int_mult of_int_numeral)
      with d show ?thesis by (simp add: field_simps)
    qed
    moreover have "(of_int r / of_int d :: rat) < 1"
      using r d by simp
    ultimately show ?thesis
      by (simp add: q abs_if)
  next
    case 3
    have rd: "(of_int r / of_int d :: rat) = 1 / 2"
    proof -
      have "(of_int d :: rat) = 2 * of_int r"
        using 3 by (metis of_int_mult of_int_numeral)
      with d show ?thesis by (simp add: field_simps)
    qed
    have "round_half_even n d = t \<or> round_half_even n d = t + 1"
      using 3 by (simp add: round_half_even_def Let_def t_def r_def)
    then show ?thesis
      by (auto simp: q rd)
  qed
qed

lemma scale2_val:
  assumes "0 < q" and "scale2 a q s = (n, d)"
  shows "0 < d" and "(of_int n / of_int d :: rat) = of_int a / of_int q * 2 powi s"
proof -
  show "0 < d"
    using assms by (auto simp: scale2_def split: if_splits)
  show "(of_int n / of_int d :: rat) = of_int a / of_int q * 2 powi s"
  proof (cases "0 \<le> s")
    case True
    with assms(2) have "n = a * 2 ^ nat s" "d = q"
      by (simp_all add: scale2_def)
    with True show ?thesis
      by (simp add: power_int_def)
  next
    case False
    with assms(2) have "n = a" "d = q * 2 ^ nat (- s)"
      by (simp_all add: scale2_def)
    with False show ?thesis
      by (simp add: power_int_def field_simps)
  qed
qed

lemma bitlen_powi:
  assumes "0 < a"
  shows "(2 :: rat) powi (bitlen a - 1) \<le> of_int a" and "(of_int a :: rat) < 2 powi (bitlen a)"
proof -
  from bitlen_bounds [OF assms]
  have b: "2 ^ nat (bitlen a - 1) \<le> a" "a < 2 ^ nat (bitlen a)"
    by simp_all
  have pos: "1 \<le> bitlen a"
    using assms by (simp add: bitlen_alt_def)
  have "(of_int (2 ^ nat (bitlen a - 1)) :: rat) \<le> of_int a"
    using b(1) by (simp only: of_int_le_iff)
  then show "(2 :: rat) powi (bitlen a - 1) \<le> of_int a"
    using pos by (simp add: power_int_def)
  have "(of_int a :: rat) < of_int (2 ^ nat (bitlen a))"
    using b(2) by (simp only: of_int_less_iff)
  then show "(of_int a :: rat) < 2 powi (bitlen a)"
    using pos by (simp add: power_int_def)
qed

lemma powi_two_pos: "(0 :: rat) < 2 powi s"
  by (simp add: power_int_def)

lemma powi_two_add: "(2 :: rat) powi (s + t) = 2 powi s * 2 powi t"
  by (simp add: power_int_add)

lemma powi_two_mono: "s \<le> t \<Longrightarrow> (2 :: rat) powi s \<le> 2 powi t"
  by (rule power_int_increasing) simp_all

lemma powi_two_less: "(2 :: rat) powi s < 2 powi t \<Longrightarrow> s < t"
  by (metis powi_two_mono not_less)

lemma norm_scale_bounds:
  assumes "0 < a" and "0 < q" and "0 < prec"
  defines "x \<equiv> (of_int a / of_int q :: rat)"
  shows "2 ^ (prec - 1) \<le> x * 2 powi (norm_scale prec a q)"
    and "x * 2 powi (norm_scale prec a q) < 2 ^ prec"
proof -
  define s0 where "s0 = int prec - (bitlen a - bitlen q)"
  obtain n d where nd: "scale2 a q s0 = (n, d)"
    by (cases "scale2 a q s0") auto
  note sv = scale2_val [OF assms(2) nd]
  have qpos: "(0 :: rat) < of_int q" and apos: "(0 :: rat) < of_int a"
    using assms by simp_all
  have xpos: "0 < x"
    using qpos apos by (simp add: x_def)
  note ba = bitlen_powi [OF assms(1)] and bq = bitlen_powi [OF assms(2)]
  have lower: "2 powi (bitlen a - 1 - bitlen q) < x"
  proof -
    have "2 powi (bitlen a - 1 - bitlen q) * of_int q < 2 powi (bitlen a - 1 - bitlen q) * (2 :: rat) powi (bitlen q)"
      using bq(2) powi_two_pos by (simp add: mult_strict_left_mono)
    also have "\<dots> = 2 powi (bitlen a - 1)"
      by (simp add: powi_two_add [symmetric])
    also have "\<dots> \<le> of_int a" by (rule ba(1))
    finally show ?thesis
      using qpos by (simp add: x_def field_simps)
  qed
  have upper: "x < 2 powi (bitlen a - bitlen q + 1)"
  proof -
    have "of_int a < (2 :: rat) powi (bitlen a)" by (rule ba(2))
    also have "\<dots> = 2 powi (bitlen a - bitlen q + 1) * 2 powi (bitlen q - 1)"
      by (simp add: powi_two_add [symmetric])
    also have "\<dots> \<le> 2 powi (bitlen a - bitlen q + 1) * of_int q"
      using bq(1) powi_two_pos by (simp add: mult_left_mono less_imp_le)
    finally show ?thesis
      using qpos by (simp add: x_def field_simps)
  qed
  have lo0: "2 powi (int prec - 1) < x * 2 powi s0"
  proof -
    have "(2 :: rat) powi (int prec - 1) = 2 powi (bitlen a - 1 - bitlen q) * 2 powi s0"
      by (simp add: powi_two_add [symmetric] s0_def)
    also have "\<dots> < x * 2 powi s0"
      using lower powi_two_pos by (simp add: mult_strict_right_mono)
    finally show ?thesis .
  qed
  have hi0: "x * 2 powi s0 < 2 powi (int prec + 1)"
  proof -
    have "x * 2 powi s0 < 2 powi (bitlen a - bitlen q + 1) * 2 powi s0"
      using upper powi_two_pos by (simp add: mult_strict_right_mono)
    also have "\<dots> = 2 powi (int prec + 1)"
      by (simp add: powi_two_add [symmetric] s0_def add.commute)
    finally show ?thesis .
  qed
  have p1: "(2 :: rat) powi (int prec - 1) = 2 ^ (prec - 1)"
    using assms(3) by (simp add: power_int_def nat_diff_distrib')
  have p2: "(2 :: rat) powi (int prec + 1) = 2 * 2 ^ prec"
    by (simp add: power_int_def nat_add_distrib)
  have test: "d * 2 ^ prec \<le> n \<longleftrightarrow> 2 ^ prec \<le> x * 2 powi s0"
  proof -
    have dpos: "(0 :: rat) < of_int d" using sv(1) by simp
    have "d * 2 ^ prec \<le> n \<longleftrightarrow> (of_int (d * 2 ^ prec) :: rat) \<le> of_int n"
      by (simp only: of_int_le_iff)
    also have "\<dots> \<longleftrightarrow> (2 :: rat) ^ prec \<le> of_int n / of_int d"
      using dpos by (simp add: field_simps)
    finally show ?thesis
      by (simp add: sv(2) x_def)
  qed
  have ns: "norm_scale prec a q = (if 2 ^ prec \<le> x * 2 powi s0 then s0 - 1 else s0)"
    by (simp add: norm_scale_def Let_def s0_def [symmetric] nd test)
  have half: "x * 2 powi (s0 - 1) = x * 2 powi s0 / 2"
    by (simp add: power_int_diff)
  show "2 ^ (prec - 1) \<le> x * 2 powi (norm_scale prec a q)"
  proof (cases "2 ^ prec \<le> x * 2 powi s0")
    case True
    have "(2 :: rat) ^ (prec - 1) * 2 = 2 ^ prec"
      using assms(3) by (cases prec) simp_all
    with True show ?thesis
      by (simp add: ns half)
  next
    case False
    with lo0 show ?thesis
      by (simp add: ns p1)
  qed
  show "x * 2 powi (norm_scale prec a q) < 2 ^ prec"
  proof (cases "2 ^ prec \<le> x * 2 powi s0")
    case True
    with hi0 show ?thesis
      by (simp add: ns half p2)
  next
    case False
    then show ?thesis
      by (simp add: ns)
  qed
qed

text \<open>
  The error of \<open>to_double\<close>, for a fraction of magnitude \<open>2 ^ 40\<close> at most: the result is
  finite, and off by the relative error \<open>2 ^ - 53\<close> of the normal numbers or by half of
  the least subnormal number.
\<close>

lemma to_double_error:
  assumes "0 < q" and "\<bar>of_int p / of_int q :: rat\<bar> \<le> 2 ^ 40"
  obtains m e where "to_double p q = Finite m e"
    and "\<bar>of_int m * 2 powi e - (of_int p / of_int q :: rat)\<bar>
           \<le> \<bar>of_int p / of_int q\<bar> / 2 ^ 53 + 2 powi (- 1075)"
proof (cases "p = 0")
  case True
  then have "to_double p q = Finite 0 0"
    by (simp add: to_double_def round_binary_def)
  moreover have "\<bar>of_int 0 * 2 powi 0 - (of_int p / of_int q :: rat)\<bar>
           \<le> \<bar>of_int p / of_int q\<bar> / 2 ^ 53 + 2 powi (- 1075)"
    using True by simp
  ultimately show ?thesis by (rule that)
next
  case False
  define a where "a = \<bar>p\<bar>"
  define x where "x = (of_int a / of_int q :: rat)"
  have apos: "0 < a" using False by (simp add: a_def)
  have qpos: "(0 :: rat) < of_int q" using assms(1) by simp
  have xpos: "0 < x" using apos qpos by (simp add: x_def)
  have pq: "(of_int p / of_int q :: rat) = of_int (sgn p) * x"
    by (simp add: x_def a_def sgn_if)
  have absx: "\<bar>of_int p / of_int q :: rat\<bar> = x"
    using assms(1) by (simp add: x_def a_def abs_divide)
  have xle: "x \<le> 2 ^ 40" using assms(2) absx by simp
  define s1 where "s1 = norm_scale 53 a q"
  have b1: "2 ^ 52 \<le> x * 2 powi s1" and b2: "x * 2 powi s1 < 2 ^ 53"
    using norm_scale_bounds [OF apos assms(1), of 53] by (simp_all add: s1_def x_def)
  have s1_ge: "12 \<le> s1"
  proof (rule ccontr)
    assume "\<not> 12 \<le> s1"
    then have "s1 \<le> 11" by simp
    then have "(2 :: rat) powi s1 \<le> 2 powi 11" by (rule powi_two_mono)
    then have "x * 2 powi s1 \<le> 2 ^ 40 * 2 powi 11"
      using xle xpos powi_two_pos [of s1] by (intro mult_mono) simp_all
    also have "\<dots> < 2 ^ 52" by (simp add: power_int_def)
    finally show False using b1 by simp
  qed
  define s where "s = min s1 1074"
  have s_ge: "12 \<le> s" and s_le: "s \<le> s1"
    using s1_ge by (simp_all add: s_def)
  obtain n d where nd: "scale2 a q s = (n, d)"
    by (cases "scale2 a q s") auto
  note sv = scale2_val [OF assms(1) nd]
  define y where "y = x * 2 powi s"
  have y: "(of_int n / of_int d :: rat) = y"
    by (simp add: sv(2) y_def x_def)
  have ypos: "0 < y" using xpos powi_two_pos by (simp add: y_def)
  have yhi: "y < 2 ^ 53"
  proof -
    have "y \<le> x * 2 powi s1"
      unfolding y_def using xpos powi_two_mono [OF s_le] by (simp add: mult_left_mono)
    with b2 show ?thesis by simp
  qed
  define m where "m = round_half_even n d"
  have err: "\<bar>of_int m - y\<bar> \<le> 1 / 2"
    using round_half_even_error [OF sv(1), of n] by (simp add: m_def y)
  have m_nonneg: "0 \<le> m"
  proof -
    from err ypos have "(- 1 :: rat) < of_int m" by linarith
    then have "(of_int (- 1) :: rat) < of_int m" by simp
    then have "- 1 < m" by (simp only: of_int_less_iff)
    then show ?thesis by simp
  qed
  have m_le: "m \<le> 2 ^ 53"
  proof -
    from err yhi have "(of_int m :: rat) < 2 ^ 53 + 1" by linarith
    also have "\<dots> = of_int (2 ^ 53 + 1)" by simp
    finally have "m < 2 ^ 53 + 1" by (simp only: of_int_less_iff)
    then show ?thesis by simp
  qed
  have xs: "x = y * 2 powi (- s)"
    by (simp add: y_def mult.assoc powi_two_add [symmetric])
  have tail: "\<bar>of_int m * 2 powi (- s) - x\<bar> \<le> x / 2 ^ 53 + 2 powi (- 1075)"
  proof -
    have "of_int m * 2 powi (- s) - x = (of_int m - y) * 2 powi (- s)"
      by (simp add: xs algebra_simps)
    then have "\<bar>of_int m * 2 powi (- s) - x\<bar> = \<bar>of_int m - y\<bar> * 2 powi (- s)"
      using powi_two_pos [of "- s"] by (simp add: abs_mult)
    also have "\<dots> \<le> 1 / 2 * 2 powi (- s)"
      using err powi_two_pos [of "- s"] by (intro mult_right_mono) simp_all
    also have "\<dots> \<le> x / 2 ^ 53 + 2 powi (- 1075)"
    proof (cases "s1 \<le> 1074")
      case True
      then have "s = s1" by (simp add: s_def)
      with b1 have "2 ^ 52 \<le> y" by (simp add: y_def)
      then have "2 ^ 52 * 2 powi (- s) \<le> y * 2 powi (- s)"
        using powi_two_pos [of "- s"] by (intro mult_right_mono) simp_all
      then have "2 ^ 52 * 2 powi (- s) \<le> x" by (simp add: xs [symmetric])
      then have "1 / 2 * 2 powi (- s) \<le> x / 2 ^ 53" by simp
      then show ?thesis by simp
    next
      case False
      then have s: "s = 1074" by (simp add: s_def)
      have "(2 :: rat) powi (- 1075) = 2 powi (- 1) * 2 powi (- 1074)"
        by (simp only: powi_two_add [symmetric]) simp
      also have "(2 :: rat) powi (- 1) = 1 / 2"
        by (simp add: power_int_minus)
      finally have "1 / 2 * (2 :: rat) powi (- s) = 2 powi (- 1075)"
        by (simp only: s)
      moreover have "0 \<le> x / 2 ^ 53" using xpos by simp
      ultimately show ?thesis by (simp only: add_increasing)
    qed
    finally show ?thesis .
  qed
  have rb: "to_double p q =
      (if m = 0 then Finite 0 0
       else if m = 2 ^ 53 then Finite (sgn p * 2 ^ 52) (1 - s)
       else Finite (sgn p * m) (- s))"
    using False s_ge
    by (simp add: to_double_def round_binary_def Let_def a_def [symmetric] s1_def [symmetric]
        s_def [symmetric] nd m_def [symmetric])
  have sg: "\<bar>of_int (sgn p) * v - of_int (sgn p) * x\<bar> = \<bar>v - x\<bar>" for v :: rat
    using False by (simp add: sgn_if abs_minus_commute)
  have final: "\<bar>V - (of_int p / of_int q :: rat)\<bar>
           \<le> \<bar>of_int p / of_int q\<bar> / 2 ^ 53 + 2 powi (- 1075)"
    if "V = of_int (sgn p) * (of_int m * 2 powi (- s))" for V
    unfolding that absx unfolding pq sg by (rule tail)
  consider "m = 0" | "m = 2 ^ 53" | "m \<noteq> 0" "m \<noteq> 2 ^ 53" by blast
  then show ?thesis
  proof cases
    case 1
    with rb have r: "to_double p q = Finite 0 0" by simp
    have "(of_int 0 :: rat) * 2 powi 0 = of_int (sgn p) * (of_int m * 2 powi (- s))"
      using 1 by simp
    from r final [OF this] show ?thesis by (rule that)
  next
    case 2
    with rb have r: "to_double p q = Finite (sgn p * 2 ^ 52) (1 - s)" by simp
    have "(of_int (sgn p * 2 ^ 52) :: rat) * 2 powi (1 - s)
        = of_int (sgn p) * (of_int m * 2 powi (- s))"
      by (simp add: 2 power_int_diff power_int_minus field_simps)
    from r final [OF this] show ?thesis by (rule that)
  next
    case 3
    with rb have r: "to_double p q = Finite (sgn p * m) (- s)" by simp
    have "(of_int (sgn p * m) :: rat) * 2 powi (- s)
        = of_int (sgn p) * (of_int m * 2 powi (- s))"
      by simp
    from r final [OF this] show ?thesis by (rule that)
  qed
qed

text \<open>On a decimal numeral \<^verbatim>\<open>strtod\<close> answers the double nearest to its exact value.\<close>

lemma digits_acc:
  "digits s acc n = (case digits s 0 0 of (a, k, r) \<Rightarrow> (acc * 10 ^ k + a, n + k, r))"
proof (induction s arbitrary: acc n)
  case Nil
  show ?case by simp
next
  case (Cons c cs)
  show ?case
  proof (cases "digit_of c")
    case None
    then show ?thesis by simp
  next
    case (Some d)
    show ?thesis
      using Cons.IH [of "10 * acc + d" "Suc n"] Cons.IH [of d "Suc 0"]
      by (simp add: Some split: prod.splits) (simp add: algebra_simps)
  qed
qed

lemma digit_of_chars: "digit_of c \<noteq> None \<longleftrightarrow> c \<in> set ''0123456789''"
  by (simp add: digit_of_def)

text \<open>What a decimal numeral is, after its sign.\<close>

lemma decimal_numeral_cases:
  assumes "decimal_numeral s"
  obtains c cs u ip n1 r1 where "s = c # cs"
    "u = (if c = CHR ''-'' \<or> c = CHR ''+'' then cs else s)"
    "digits u 0 0 = (ip, n1, r1)"
    "r1 = [] \<and> 0 < n1 \<or>
     (\<exists>cs2 fp n2. r1 = CHR ''.'' # cs2 \<and> digits cs2 0 0 = (fp, n2, []) \<and> 0 < n1 + n2)"
proof -
  from assms obtain c cs where s: "s = c # cs"
    by (cases s) (simp_all add: decimal_numeral_def)
  define u where "u = (if c = CHR ''-'' \<or> c = CHR ''+'' then cs else s)"
  obtain ip n1 r1 where d: "digits u 0 0 = (ip, n1, r1)"
    by (cases "digits u 0 0") auto
  from assms have "case digits u 0 0 of (ip, n1, s2) \<Rightarrow>
      (case s2 of [] \<Rightarrow> 0 < n1
       | c2 # cs2 \<Rightarrow> c2 = CHR ''.'' \<and>
           (case digits cs2 0 0 of (fp, n2, s3) \<Rightarrow> s3 = [] \<and> 0 < n1 + n2))"
    unfolding decimal_numeral_def s list.case Let_def u_def s .
  then have r: "case r1 of [] \<Rightarrow> 0 < n1
       | c2 # cs2 \<Rightarrow> c2 = CHR ''.'' \<and>
           (case digits cs2 0 0 of (fp, n2, s3) \<Rightarrow> s3 = [] \<and> 0 < n1 + n2)"
    unfolding d prod.case .
  have "r1 = [] \<and> 0 < n1 \<or>
     (\<exists>cs2 fp n2. r1 = CHR ''.'' # cs2 \<and> digits cs2 0 0 = (fp, n2, []) \<and> 0 < n1 + n2)"
  proof (cases r1)
    case Nil
    with r show ?thesis by simp
  next
    case (Cons c2 cs2)
    obtain fp n2 s3 where d2: "digits cs2 0 0 = (fp, n2, s3)"
      by (cases "digits cs2 0 0") auto
    from r have "c2 = CHR ''.'' \<and> s3 = [] \<and> 0 < n1 + n2"
      unfolding Cons list.case d2 prod.case .
    with d2 show ?thesis
      by (simp add: Cons)
  qed
  with s u_def d show ?thesis by (rule that)
qed

lemma strtod_decimal_numeral:
  assumes "decimal_numeral s"
  obtains m k where "decimal_prefix s = Some (m, k)" and "strtod s = to_double m (10 ^ k)"
proof -
  from assms obtain c cs u ip n1 r1 where
    s: "s = c # cs" and u: "u = (if c = CHR ''-'' \<or> c = CHR ''+'' then cs else s)"
    and d: "digits u 0 0 = (ip, n1, r1)"
    and r: "r1 = [] \<and> 0 < n1 \<or>
     (\<exists>cs2 fp n2. r1 = CHR ''.'' # cs2 \<and> digits cs2 0 0 = (fp, n2, []) \<and> 0 < n1 + n2)"
    by (rule decimal_numeral_cases)
  have "u \<noteq> []"
  proof
    assume "u = []"
    with d r show False by auto
  qed
  then obtain c0 u' where u0: "u = c0 # u'"
    by (cases u) auto
  have c0: "c0 \<in> set ''0123456789'' \<or> c0 = CHR ''.''"
  proof (cases "digit_of c0")
    case None
    with d have "r1 = u" "n1 = 0" by (simp_all add: u0)
    with r u0 show ?thesis by auto
  next
    case (Some x)
    then have "digit_of c0 \<noteq> None" by simp
    then show ?thesis by (simp only: digit_of_chars) simp
  qed
  have nospace: "\<not> is_space c"
  proof (cases "c = CHR ''-'' \<or> c = CHR ''+''")
    case True
    then show ?thesis by (auto simp: is_space_def)
  next
    case False
    with u s u0 have "c = c0" by simp
    with c0 show ?thesis by (auto simp: is_space_def)
  qed
  then have drop: "dropWhile is_space s = s"
    by (simp add: s)
  have sg: "signed s = (c = CHR ''-'', u)"
    by (auto simp: signed_def s u)
  have inf: "\<not> starts_ci [(CHR ''i'', CHR ''I''), (CHR ''n'', CHR ''N''), (CHR ''f'', CHR ''F'')] u"
    using c0 by (auto simp: u0)
  have nan: "\<not> starts_ci [(CHR ''n'', CHR ''N''), (CHR ''a'', CHR ''A''), (CHR ''n'', CHR ''N'')] u"
    using c0 by (auto simp: u0)
  have hex: "hex_float u = None"
  proof (cases u')
    case Nil
    then show ?thesis by (simp add: hex_float_def u0)
  next
    case (Cons x cs')
    show ?thesis
    proof (cases "c0 = CHR ''0'' \<and> (x = CHR ''x'' \<or> x = CHR ''X'')")
      case True
      then have "digits u 0 0 = (0, 1, x # cs')"
        by (auto simp: u0 Cons digit_of_def)
      with d have "r1 = x # cs'" by simp
      with r True show ?thesis by auto
    next
      case False
      then show ?thesis by (auto simp: hex_float_def u0 Cons)
    qed
  qed
  obtain m k where sig: "significand digits u = Some (m, k, [])"
    and pre: "decimal_prefix s = Some (if c = CHR ''-'' then - m else m, k)"
  proof -
    have pre0: "decimal_prefix s =
        (case (case r1 of c # cs \<Rightarrow> if c = CHR ''.'' then digits cs ip 0 else (ip, 0, r1)
                           | [] \<Rightarrow> (ip, 0, r1)) of
              (m, n2, s3) \<Rightarrow>
                if n1 + n2 = 0 then None
                else Some (if c = CHR ''-'' then - m else m, n2))"
      unfolding decimal_prefix_def s list.case Let_def u [unfolded s, symmetric] d prod.case ..
    have sig0: "significand digits u =
        (case (case r1 of c # cs \<Rightarrow> if c = CHR ''.'' then digits cs ip 0 else (ip, 0, r1)
               | [] \<Rightarrow> (ip, 0, r1)) of
           (m, n2, r2) \<Rightarrow> if n1 + n2 = 0 then None else Some (m, n2, r2))"
      unfolding significand_def d prod.case ..
    from r show ?thesis
    proof
      assume a: "r1 = [] \<and> 0 < n1"
      then have "significand digits u = Some (ip, 0, [])"
        and "decimal_prefix s = Some (if c = CHR ''-'' then - ip else ip, 0)"
        by (simp_all add: sig0 pre0)
      then show ?thesis by (rule that)
    next
      assume "\<exists>cs2 fp n2. r1 = CHR ''.'' # cs2 \<and> digits cs2 0 0 = (fp, n2, []) \<and> 0 < n1 + n2"
      then obtain cs2 fp n2 where
        a: "r1 = CHR ''.'' # cs2" "digits cs2 0 0 = (fp, n2, [])" "0 < n1 + n2"
        by blast
      have "digits cs2 ip 0 = (ip * 10 ^ n2 + fp, n2, [])"
        by (subst digits_acc) (simp add: a(2))
      with a have "significand digits u = Some (ip * 10 ^ n2 + fp, n2, [])"
        and "decimal_prefix s
             = Some (if c = CHR ''-'' then - (ip * 10 ^ n2 + fp) else ip * 10 ^ n2 + fp, n2)"
        by (simp_all add: sig0 pre0)
      then show ?thesis by (rule that)
    qed
  qed
  have ex: "exponent_part (CHR ''e'') (CHR ''E'') [] = 0"
    by (simp add: exponent_part_def)
  have "strtod s = to_double (if c = CHR ''-'' then - m else m) (10 ^ k)"
    unfolding strtod_def drop sg prod.case
    by (simp add: inf nan hex sig ex Let_def)
  with pre show ?thesis by (rule that)
qed

text \<open>Within the range of \<^verbatim>\<open>int\<close> the conversion drops the fraction.\<close>

lemma c_int_Finite:
  assumes "\<bar>dval (Finite m e)\<bar> < 2 ^ 31"
  shows "c_int (Finite m e)
         = (if 0 \<le> dval (Finite m e) then \<lfloor>dval (Finite m e)\<rfloor> else \<lceil>dval (Finite m e)\<rceil>)"
proof -
  define v where "v = dval (Finite m e)"
  define t where "t = (if 0 \<le> e then m * 2 ^ nat e else sgn m * (\<bar>m\<bar> div 2 ^ nat (- e)))"
  have t: "t = (if 0 \<le> v then \<lfloor>v\<rfloor> else \<lceil>v\<rceil>)"
  proof (cases "0 \<le> e")
    case True
    then have "v = of_int (m * 2 ^ nat e)"
      by (simp add: v_def dval_def power_int_def)
    moreover have "t = m * 2 ^ nat e"
      using True by (simp add: t_def)
    ultimately show ?thesis
      by (simp only: floor_of_int ceiling_of_int if_cancel)
  next
    case False
    let ?n = "nat (- e)"
    have dv: "v = of_int m / of_int (2 ^ ?n)"
      using False by (simp add: v_def dval_def power_int_def field_simps)
    show ?thesis
    proof (cases "0 \<le> m")
      case True
      then have "0 \<le> v" unfolding dv by (simp add: zero_le_divide_iff)
      moreover have "\<lfloor>v\<rfloor> = m div 2 ^ ?n"
        unfolding dv by (rule floor_divide_of_int_eq)
      moreover have "sgn m * (\<bar>m\<bar> div 2 ^ ?n) = m div 2 ^ ?n"
        using True by (cases "m = 0") (simp_all add: sgn_if)
      ultimately show ?thesis using False by (simp add: t_def)
    next
      case neg: False
      then have "v < 0" unfolding dv by (simp add: divide_less_0_iff)
      moreover have "\<lceil>v\<rceil> = - ((- m) div 2 ^ ?n)"
      proof -
        have "\<lceil>v\<rceil> = - \<lfloor>- v\<rfloor>" by (simp add: ceiling_def)
        also have "- v = of_int (- m) / of_int (2 ^ ?n)"
          unfolding dv by simp
        also have "\<lfloor>\<dots>\<rfloor> = (- m) div 2 ^ ?n"
          by (rule floor_divide_of_int_eq)
        finally show ?thesis .
      qed
      ultimately show ?thesis using False neg by (simp add: t_def sgn_if)
    qed
  qed
  have range: "INT_MIN \<le> t \<and> t \<le> INT_MAX"
  proof (cases "0 \<le> v")
    case True
    with t have tv: "t = \<lfloor>v\<rfloor>" by simp
    have "0 \<le> t" using True by (simp add: tv)
    moreover have "of_int t \<le> v" by (simp add: tv)
    with assms have "(of_int t :: rat) < of_int (2 ^ 31)" by (simp add: v_def)
    then have "t < 2 ^ 31" by (simp only: of_int_less_iff)
    ultimately show ?thesis by (simp add: INT_MIN_def INT_MAX_def)
  next
    case False
    with t have tv: "t = \<lceil>v\<rceil>" by simp
    have "t \<le> 0" using False by (simp add: tv ceiling_le_zero)
    moreover have "v \<le> of_int t" by (simp add: tv)
    with assms have "(of_int (- (2 ^ 31)) :: rat) < of_int t" by (simp add: v_def)
    then have "- (2 ^ 31) < t" by (simp only: of_int_less_iff)
    ultimately show ?thesis by (simp add: INT_MIN_def INT_MAX_def)
  qed
  have "c_int (Finite m e) = t"
    using range by (simp add: t_def Let_def)
  with t show ?thesis by (simp add: v_def)
qed

lemma INTERNAL_PER_LOGICAL_value: "INTERNAL_PER_LOGICAL = Finite 5497558138880000 (- 39)"
  by code_simp

lemma fmul_INTERNAL_PER_LOGICAL:
  obtains p q where "0 < q" and "(of_int p / of_int q :: rat) = dval (Finite m e) * 10000"
    and "fmul (Finite m e) INTERNAL_PER_LOGICAL = to_double p q"
proof -
  obtain p q where pq: "scale2 (m * 5497558138880000) 1 (e - 39) = (p, q)"
    by (cases "scale2 (m * 5497558138880000) 1 (e - 39)") auto
  from scale2_val [OF _ pq] have q: "0 < q"
    and v: "(of_int p / of_int q :: rat) = of_int (m * 5497558138880000) / of_int 1 * 2 powi (e - 39)"
    by simp_all
  have "(2 :: rat) powi (e - 39) = 2 powi e * 2 powi (- 39)"
    using powi_two_add [of e "- 39"] by simp
  moreover have "(2 :: rat) powi (- 39) = 1 / 549755813888"
    by (simp add: power_int_minus)
  ultimately have "(of_int p / of_int q :: rat) = dval (Finite m e) * 10000"
    unfolding v by (simp add: dval_def)
  moreover have "fmul (Finite m e) INTERNAL_PER_LOGICAL = to_double p q"
    by (simp add: INTERNAL_PER_LOGICAL_value pq)
  ultimately show ?thesis using q that by blast
qed

lemma tiny_le: "(2 :: rat) powi (- 1075) \<le> 1 / 2 ^ 53"
proof -
  have "(2 :: rat) powi (- 1075) \<le> 2 powi (- 53)"
    by (rule powi_two_mono) simp
  also have "\<dots> = 1 / 2 ^ 53"
    by (simp only: power_int_minus power_int_numeral inverse_eq_divide)
  finally show ?thesis .
qed

lemma product_error:
  assumes "decimal_numeral s" and "\<bar>parse_float s\<bar> \<le> 214748"
  obtains m e where "fmul (strtod s) INTERNAL_PER_LOGICAL = Finite m e"
    and "\<bar>dval (Finite m e) - parse_float s * 10000\<bar> < 1 / 2 ^ 20"
proof -
  define tiny where "tiny = (2 :: rat) powi (- 1075)"
  have tiny: "0 < tiny" "tiny \<le> 1 / 2 ^ 53"
    unfolding tiny_def by (rule powi_two_pos, rule tiny_le)
  define v where "v = parse_float s"
  from assms(1) obtain m0 k where
    pre: "decimal_prefix s = Some (m0, k)" and st: "strtod s = to_double m0 (10 ^ k)"
    by (rule strtod_decimal_numeral)
  have v: "v = of_int m0 / of_int (10 ^ k)"
    by (simp add: v_def parse_float_def pre)
  have vb: "\<bar>v\<bar> \<le> 214748" using assms(2) by (simp add: v_def)
  have k: "(0 :: int) < 10 ^ k" by simp
  have "\<bar>of_int m0 / of_int (10 ^ k) :: rat\<bar> \<le> 2 ^ 40"
    using vb unfolding v by (rule order_trans) simp
  from to_double_error [OF k this] obtain m1 e1 where
    d1: "to_double m0 (10 ^ k) = Finite m1 e1"
    and e1: "\<bar>of_int m1 * 2 powi e1 - v\<bar> \<le> \<bar>v\<bar> / 2 ^ 53 + tiny"
    unfolding v [symmetric] tiny_def [symmetric] by blast
  define v1 where "v1 = dval (Finite m1 e1)"
  have v1: "v1 = of_int m1 * 2 powi e1" by (simp add: v1_def dval_def)
  have err1: "\<bar>v1 - v\<bar> \<le> \<bar>v\<bar> / 2 ^ 53 + tiny"
    using e1 by (simp add: v1)
  obtain p q where q: "0 < q" and P: "(of_int p / of_int q :: rat) = v1 * 10000"
    and f: "fmul (Finite m1 e1) INTERNAL_PER_LOGICAL = to_double p q"
    unfolding v1_def by (rule fmul_INTERNAL_PER_LOGICAL)
  have v1b: "\<bar>v1\<bar> \<le> 214749"
    using err1 vb tiny by (simp add: abs_le_iff) linarith
  have "\<bar>v1 * 10000\<bar> \<le> 2147490000"
    using v1b by (simp add: abs_mult)
  then have "\<bar>of_int p / of_int q :: rat\<bar> \<le> 2 ^ 40"
    unfolding P by (rule order_trans) simp
  from to_double_error [OF q this] obtain m2 e2 where
    d2: "to_double p q = Finite m2 e2"
    and e2: "\<bar>of_int m2 * 2 powi e2 - v1 * 10000\<bar> \<le> \<bar>v1 * 10000\<bar> / 2 ^ 53 + tiny"
    unfolding P tiny_def [symmetric] by blast
  define v2 where "v2 = dval (Finite m2 e2)"
  have err2: "\<bar>v2 - v1 * 10000\<bar> \<le> \<bar>v1\<bar> * 10000 / 2 ^ 53 + tiny"
    using e2 by (simp add: v2_def dval_def abs_mult)
  have res: "fmul (strtod s) INTERNAL_PER_LOGICAL = Finite m2 e2"
    by (simp add: st d1 f d2)
  have "\<bar>v2 - v * 10000\<bar> = \<bar>(v2 - v1 * 10000) + (v1 - v) * 10000\<bar>"
    by (simp add: algebra_simps)
  also have "\<dots> \<le> \<bar>v2 - v1 * 10000\<bar> + \<bar>(v1 - v) * 10000\<bar>"
    by (rule abs_triangle_ineq)
  also have "\<bar>(v1 - v) * 10000\<bar> = \<bar>v1 - v\<bar> * 10000"
    by (simp only: abs_mult abs_numeral)
  finally have "\<bar>v2 - v * 10000\<bar> \<le> \<bar>v2 - v1 * 10000\<bar> + \<bar>v1 - v\<bar> * 10000" .
  also have "\<dots> \<le> (\<bar>v1\<bar> * 10000 / 2 ^ 53 + tiny) + (\<bar>v\<bar> / 2 ^ 53 + tiny) * 10000"
    using err1 err2 by (intro add_mono mult_right_mono) simp_all
  also have "\<dots> < 1 / 2 ^ 20"
    using v1b vb tiny by simp
  finally have "\<bar>dval (Finite m2 e2) - parse_float s * 10000\<bar> < 1 / 2 ^ 20"
    by (simp add: v2_def v_def)
  with res show ?thesis by (rule that)
qed

text \<open>
  Values of the model against doubles that are known: 0.1 is \<^verbatim>\<open>0x3FB999999999999A\<close>,
  and 0.0003 times 10000 is the double below 3.
\<close>

lemma strtod_tenth: "strtod ''0.1'' = Finite 7205759403792794 (- 56)"
  by code_simp

lemma internal_three_ten_thousandths: "internal ''0.0003'' = 2"
  by code_simp

lemma internal_1: "internal ''1'' = 10000"
  by code_simp
lemma internal_half: "internal ''0.5'' = 5000"
  by code_simp
lemma internal_minus_2_25: "internal ''-2.25'' = - 22500"
  by code_simp

text \<open>
  The last numeral whose product is an \<^verbatim>\<open>int\<close>, numerals beyond it, a numeral with an
  exponent part, and an infinity.
\<close>

lemma internal_beyond_int:
  "internal ''214748.3647'' = 2147483647 \<and> internal ''214748.3648'' = INT_MIN
   \<and> internal ''300000'' = INT_MIN \<and> internal ''1e2'' = 1000000
   \<and> internal ''inf'' = INT_MIN"
  by code_simp

lemma trunc_near_round:
  fixes v x :: rat
  assumes "\<bar>v - x\<bar> < 1 / 2 ^ 20"
  shows "\<bar>(if 0 \<le> v then \<lfloor>v\<rfloor> else \<lceil>v\<rceil>) - round x\<bar> \<le> 1"
proof -
  define t where "t = (if 0 \<le> v then \<lfloor>v\<rfloor> else \<lceil>v\<rceil>)"
  have tv: "\<bar>of_int t - v\<bar> < 1"
  proof (cases "0 \<le> v")
    case True
    then have "t = \<lfloor>v\<rfloor>" by (simp add: t_def)
    then show ?thesis by (simp add: abs_less_iff) linarith
  next
    case False
    then have "t = \<lceil>v\<rceil>" by (simp add: t_def)
    then show ?thesis by (simp add: abs_less_iff) linarith
  qed
  have rx: "\<bar>of_int (round x) - x\<bar> \<le> 1 / 2"
    by (rule of_int_round_abs_le)
  from assms have a: "\<bar>v - x\<bar> < 1 / 1048576" by simp
  from a tv rx have "\<bar>(of_int t :: rat) - of_int (round x)\<bar> < 2"
    by linarith
  then have "\<bar>(of_int (t - round x) :: rat)\<bar> < of_int 2" by simp
  then have "\<bar>t - round x\<bar> < 2"
    by (simp only: of_int_abs [symmetric] of_int_less_iff)
  then show ?thesis by (simp add: t_def)
qed

text \<open>
  C2, as the claim states it: the converter returns \<^verbatim>\<open>round(parse_float(s) * 10000)\<close>.
  The numeral \<^verbatim>\<open>0.046875\<close> is 3/64, a double, and so is its product with 10000, which
  is 468.75: the converter returns 468, and the nearest integer is 469.
\<close>

theorem internal_not_rounded:
  "decimal_numeral ''0.046875'' \<and> internal ''0.046875'' = 468 \<and>
   convert_spec ''0.046875'' = 469"
  by code_simp

text \<open>
  C2, amended. For every decimal numeral (an optional sign, digits with an optional
  point, no exponent part) of magnitude 214748 at most, the product of \<^verbatim>\<open>strtod(s)\<close> and
  10000 in double arithmetic is finite and within \<open>2 ^ - 20\<close> of the exact product, and
  the converter returns it with its fraction dropped (truncated toward zero): an
  \<^verbatim>\<open>int\<close> that differs from the nearest integer \<^verbatim>\<open>round(parse_float(s) * 10000)\<close> by 1
  at most, and is not always equal to it. \<^verbatim>\<open>1\<close> gives 10000, \<^verbatim>\<open>0.5\<close> gives 5000 and
  \<^verbatim>\<open>-2.25\<close> gives -22500.
\<close>

theorem internal_truncates:
  assumes "decimal_numeral s" and "\<bar>parse_float s\<bar> \<le> 214748"
  shows "is_finite (fmul (strtod s) INTERNAL_PER_LOGICAL)
       \<and> internal s = (let p = dval (fmul (strtod s) INTERNAL_PER_LOGICAL)
                       in if 0 \<le> p then \<lfloor>p\<rfloor> else \<lceil>p\<rceil>)
       \<and> \<bar>dval (fmul (strtod s) INTERNAL_PER_LOGICAL) - parse_float s * 10000\<bar> < 1 / 2 ^ 20
       \<and> \<bar>internal s - convert_spec s\<bar> \<le> 1
       \<and> internal ''1'' = 10000 \<and> internal ''0.5'' = 5000 \<and> internal ''-2.25'' = - 22500"
proof -
  from assms obtain m e where
    f: "fmul (strtod s) INTERNAL_PER_LOGICAL = Finite m e"
    and err: "\<bar>dval (Finite m e) - parse_float s * 10000\<bar> < 1 / 2 ^ 20"
    by (rule product_error)
  have "\<bar>parse_float s * 10000\<bar> \<le> 2147480000"
    using assms(2) by (simp add: abs_mult)
  moreover from err have "\<bar>dval (Finite m e) - parse_float s * 10000\<bar> < 1 / 1048576"
    by simp
  ultimately have "\<bar>dval (Finite m e)\<bar> < 2147480001"
    by linarith
  then have "\<bar>dval (Finite m e)\<bar> < 2 ^ 31"
    by (rule less_trans) simp
  from c_int_Finite [OF this]
  have i: "internal s = (if 0 \<le> dval (Finite m e) then \<lfloor>dval (Finite m e)\<rfloor>
                         else \<lceil>dval (Finite m e)\<rceil>)"
    by (simp add: internal_def log2int_def f)
  have c1: "is_finite (fmul (strtod s) INTERNAL_PER_LOGICAL)"
    by (simp add: f is_finite_def)
  have c2: "internal s = (let p = dval (fmul (strtod s) INTERNAL_PER_LOGICAL)
                       in if 0 \<le> p then \<lfloor>p\<rfloor> else \<lceil>p\<rceil>)"
    by (simp only: f i Let_def)
  have c3: "\<bar>dval (fmul (strtod s) INTERNAL_PER_LOGICAL) - parse_float s * 10000\<bar> < 1 / 2 ^ 20"
    using err by (simp only: f)
  have c4: "\<bar>internal s - convert_spec s\<bar> \<le> 1"
    unfolding i convert_spec_def by (rule trunc_near_round [OF err])
  from c1 c2 c3 c4 internal_1 internal_half internal_minus_2_25 show ?thesis
    by (intro conjI)
qed

text \<open>The numeral \<^verbatim>\<open>0.046875\<close>, where the two differ by 1.\<close>

theorem internal_truncates_witness:
  "decimal_numeral ''0.046875'' \<and> \<bar>parse_float ''0.046875''\<bar> \<le> 214748
   \<and> \<bar>internal ''0.046875'' - convert_spec ''0.046875''\<bar> \<le> 1"
proof -
  have h: "decimal_numeral ''0.046875''" "\<bar>parse_float ''0.046875''\<bar> \<le> 214748"
    by code_simp+
  from internal_truncates [OF h] h show ?thesis by blast
qed

subsection \<open>C3: the place and the form of the extends clause\<close>






subsection \<open>C4: parsing again into the same part\<close>

text \<open>
  C4. \<^verbatim>\<open>Parse\<close> begins with \<^verbatim>\<open>me->clear()\<close>, so what the part held before does not
  count: when a parse of a token stream into the part at \<open>me\<close> succeeds, the same parse,
  by a parser in the same initial state, into the part as the first parse left it
  succeeds again, with the same store, field for field, and the same final parser; the
  parsed bit of the part is set; and the parse into any other content of the part (of
  the same owning library) gives that store too.
\<close>

theorem Parse_reparse:
  assumes "Parse libs st parts me = Inr (st', parts')"
  shows "Parse libs st parts' me = Inr (st', parts')
     \<and> part_contains (parts' me) AND PB PARSED \<noteq> 0
     \<and> (\<forall>q. part_owner q = part_owner (parts me) \<longrightarrow>
           Parse libs st (parts(me := q)) me = Inr (st', parts'))"
proof -
  have any: "Parse libs st (parts(me := q)) me = Parse libs st parts me"
    if "part_owner q = part_owner (parts me)" for q
  proof -
    have "(parts(me := q))(me := PART_clear ((parts(me := q)) me))
        = parts(me := PART_clear (parts me))"
      using PART_clear_cong [OF that] by simp
    then show ?thesis
      using Parse_clear [of libs st "parts(me := q)" me] Parse_clear [of libs st parts me]
      by simp
  qed
  from Parse_store [OF assms] have off: "\<And>a. a \<noteq> me \<Longrightarrow> parts' a = parts a"
    and own: "part_owner (parts' me) = part_owner (parts me)"
    and bit: "part_contains (parts' me) AND PB PARSED \<noteq> 0"
    by simp_all
  have "parts' = parts(me := parts' me)"
    using off by (auto simp: fun_eq_iff)
  with any [OF own] have "Parse libs st parts' me = Parse libs st parts me"
    by simp
  with assms bit any show ?thesis by simp
qed

text \<open>
  The part \<^verbatim>\<open>(part R (reference "R"))\<close>, parsed into a part that still holds an old
  back-reference, and parsed again into the result.
\<close>

theorem Parse_reparse_witness:
  "Parse example_ENV
     (parser_on (part_tokens (field_tokens T_reference ''reference'' ''R'' @ [(T_RIGHT, '')'')])))
     (chain_store 3) 0
   = Inr (\<lparr>toks = [], curText = '')'', contains = PB REFERENCE OR PB PARSED\<rparr>,
          (chain_store 3)(0 := (PART_clear (chain_store 3 0))
             \<lparr>part_reference := empty_PROPERTY\<lparr>prop_text := ''R''\<rparr>,
              part_contains := PB REFERENCE OR PB PARSED\<rparr>))
   \<and> Parse example_ENV
     (parser_on (part_tokens (field_tokens T_reference ''reference'' ''R'' @ [(T_RIGHT, '')'')])))
     ((chain_store 3)(0 := (PART_clear (chain_store 3 0))
             \<lparr>part_reference := empty_PROPERTY\<lparr>prop_text := ''R''\<rparr>,
              part_contains := PB REFERENCE OR PB PARSED\<rparr>)) 0
   = Inr (\<lparr>toks = [], curText = '')'', contains = PB REFERENCE OR PB PARSED\<rparr>,
          (chain_store 3)(0 := (PART_clear (chain_store 3 0))
             \<lparr>part_reference := empty_PROPERTY\<lparr>prop_text := ''R''\<rparr>,
              part_contains := PB REFERENCE OR PB PARSED\<rparr>))"
proof -
  have first: "Parse example_ENV
     (parser_on (part_tokens (field_tokens T_reference ''reference'' ''R'' @ [(T_RIGHT, '')'')])))
     (chain_store 3) 0
   = Inr (\<lparr>toks = [], curText = '')'', contains = PB REFERENCE OR PB PARSED\<rparr>,
          (chain_store 3)(0 := (PART_clear (chain_store 3 0))
             \<lparr>part_reference := empty_PROPERTY\<lparr>prop_text := ''R''\<rparr>,
              part_contains := PB REFERENCE OR PB PARSED\<rparr>))"
    by (simp add: eval_defs PART_clear_def)
  from Parse_reparse [OF first] first show ?thesis by simp
qed

subsection \<open>C5: the anchor clause and the closing delimiter\<close>

text \<open>
  C5. The case \<^verbatim>\<open>T_anchor\<close> reads two numbers and nothing more. So the closing
  delimiter of a clause \<^verbatim>\<open>(anchor X Y)\<close> is the token that the loop of \<^verbatim>\<open>Parse\<close> reads
  next, and takes for the end of the part: the loop ends there, and in
  \<^verbatim>\<open>(part NAME (anchor X Y) ...\<close> \<^verbatim>\<open>Parse\<close> returns, with the parsed bit set, and
  everything after the anchor clause is still on the token stream.
\<close>

theorem anchor_ends_part:
  assumes "k AND PB ANCHOR = 0" and "IsSymbol hint \<or> hint = T_NUMBER"
  shows "Parse_clause libs T_anchor
           \<lparr>toks = (T_NUMBER, x) # (T_NUMBER, y) # ts, curText = c, contains = k\<rparr> p
         = Inr (\<lparr>toks = ts, curText = y, contains = k OR PB ANCHOR\<rparr>,
                p\<lparr>part_anchor := (part_anchor p)\<lparr>pt_x := internal x, pt_y := internal y\<rparr>\<rparr>)
       \<and> Parse_loop libs T_LEFT
           \<lparr>toks = (T_anchor, a) # (T_NUMBER, x) # (T_NUMBER, y) # (T_RIGHT, r) # rest,
            curText = c, contains = k\<rparr> p
         = Inr (\<lparr>toks = rest, curText = r, contains = k OR PB ANCHOR\<rparr>,
                p\<lparr>part_anchor := (part_anchor p)\<lparr>pt_x := internal x, pt_y := internal y\<rparr>\<rparr>)
       \<and> Parse libs
           \<lparr>toks = (T_LEFT, l) # (T_part, pt) # (hint, name) # (T_LEFT, l2) # (T_anchor, a) #
                   (T_NUMBER, x) # (T_NUMBER, y) # (T_RIGHT, r) # rest,
            curText = c, contains = k\<rparr> parts me
         = Inr (\<lparr>toks = rest, curText = r, contains = (k OR PB ANCHOR) OR PB PARSED\<rparr>,
                parts(me := (PART_clear (parts me))
                   \<lparr>part_anchor := \<lparr>pt_x = internal x, pt_y = internal y\<rparr>,
                    part_contains := (k OR PB ANCHOR) OR PB PARSED\<rparr>))
       \<and> ((k OR PB ANCHOR) OR PB PARSED) AND PB PARSED \<noteq> 0"
proof (intro conjI)
  show clause: "Parse_clause libs T_anchor
           \<lparr>toks = (T_NUMBER, x) # (T_NUMBER, y) # ts, curText = c, contains = k\<rparr> p
         = Inr (\<lparr>toks = ts, curText = y, contains = k OR PB ANCHOR\<rparr>,
                p\<lparr>part_anchor := (part_anchor p)\<lparr>pt_x := internal x, pt_y := internal y\<rparr>\<rparr>)"
    for ts c p
    using assms(1) by (simp add: Parse_clause_def need_defs)
  show loop: "Parse_loop libs T_LEFT
       \<lparr>toks = (T_anchor, a) # (T_NUMBER, x) # (T_NUMBER, y) # (T_RIGHT, r) # rest,
        curText = c, contains = k\<rparr> p
     = Inr (\<lparr>toks = rest, curText = r, contains = k OR PB ANCHOR\<rparr>,
            p\<lparr>part_anchor := (part_anchor p)\<lparr>pt_x := internal x, pt_y := internal y\<rparr>\<rparr>)"
    for c p
    by (subst Parse_loop.simps)
       (simp add: need_defs clause Parse_loop.simps [of libs T_RIGHT])
  from assms(2) show "Parse libs
           \<lparr>toks = (T_LEFT, l) # (T_part, pt) # (hint, name) # (T_LEFT, l2) # (T_anchor, a) #
                   (T_NUMBER, x) # (T_NUMBER, y) # (T_RIGHT, r) # rest,
            curText = c, contains = k\<rparr> parts me
         = Inr (\<lparr>toks = rest, curText = r, contains = (k OR PB ANCHOR) OR PB PARSED\<rparr>,
                parts(me := (PART_clear (parts me))
                   \<lparr>part_anchor := \<lparr>pt_x = internal x, pt_y = internal y\<rparr>,
                    part_contains := (k OR PB ANCHOR) OR PB PARSED\<rparr>))"
    by (auto simp: Parse_def need_defs Let_def loop PART_clear_def)
  show "((k OR PB ANCHOR) OR PB PARSED) AND PB PARSED \<noteq> 0"
    by (rule PB_set)
qed

text \<open>
  The part \<^verbatim>\<open>(part R (anchor 1 0.5) (reference R))\<close>: \<^verbatim>\<open>Parse\<close> stops before the
  reference clause.
\<close>

theorem anchor_ends_part_witness:
  "Parse example_ENV
     (parser_on [(T_LEFT, ''(''), (T_part, ''part''), (T_SYMBOL, ''R''), (T_LEFT, ''(''),
                 (T_anchor, ''anchor''), (T_NUMBER, ''1''), (T_NUMBER, ''0.5''), (T_RIGHT, '')''),
                 (T_LEFT, ''(''), (T_reference, ''reference''), (T_SYMBOL, ''R''),
                 (T_RIGHT, '')''), (T_RIGHT, '')'')])
     (chain_store 0) 0
   = Inr (\<lparr>toks = [(T_LEFT, ''(''), (T_reference, ''reference''), (T_SYMBOL, ''R''),
                    (T_RIGHT, '')''), (T_RIGHT, '')'')],
           curText = '')'', contains = PB ANCHOR OR PB PARSED\<rparr>,
          (chain_store 0)(0 := (PART_clear (chain_store 0 0))
             \<lparr>part_anchor := \<lparr>pt_x = internal ''1'', pt_y = internal ''0.5''\<rparr>,
              part_contains := PB ANCHOR OR PB PARSED\<rparr>))"
proof -
  have h1: "(0 :: 32 word) AND PB ANCHOR = 0"
    by simp
  have h2: "IsSymbol T_SYMBOL \<or> T_SYMBOL = T_NUMBER"
    by (simp add: IsSymbol_def)
  from anchor_ends_part [OF h1 h2, where libs = example_ENV and parts = "chain_store 0"
      and me = 0 and c = "[]"]
  show ?thesis
    by (simp add: parser_on_def)
qed

subsection \<open>C6: one slot for datasheet and model\<close>


















text \<open>
  Whole parts: two datasheet clauses, two model clauses, one of each in either order,
  and a single clause of either kind.
\<close>

lemma two_datasheets:
  "Parse example_ENV (parser_on (part_tokens (field_tokens T_datasheet ''datasheet'' ''a.pdf'' @
      field_tokens T_datasheet ''datasheet'' ''b.pdf'' @ [(T_RIGHT, '')'')]))) (chain_store 0) 0
   = Inl (Duplicate_tok T_datasheet)"
  by (simp add: eval_defs PB_set PB_nonzero)

lemma two_models:
  "Parse example_ENV (parser_on (part_tokens (field_tokens T_model ''model'' ''m1'' @
      field_tokens T_model ''model'' ''m2'' @ [(T_RIGHT, '')'')]))) (chain_store 0) 0
   = Inl (Duplicate_tok T_model)"
  by (simp add: eval_defs PB_set PB_nonzero)

lemma datasheet_then_model:
  "Parse example_ENV (parser_on (part_tokens (field_tokens T_datasheet ''datasheet'' ''a.pdf'' @
      field_tokens T_model ''model'' ''m'' @ [(T_RIGHT, '')'')]))) (chain_store 0) 0
   = Inl (Duplicate_tok T_model)"
  by (simp add: eval_defs PB_set PB_nonzero)

lemma model_then_datasheet:
  "Parse example_ENV (parser_on (part_tokens (field_tokens T_model ''model'' ''m'' @
      field_tokens T_datasheet ''datasheet'' ''a.pdf'' @ [(T_RIGHT, '')'')]))) (chain_store 0) 0
   = Inl (Duplicate_tok T_datasheet)"
  by (simp add: eval_defs PB_set PB_nonzero)

lemma one_datasheet:
  "Parse example_ENV (parser_on (part_tokens (field_tokens T_datasheet ''datasheet'' ''a.pdf'' @
      [(T_RIGHT, '')'')]))) (chain_store 0) 0
   = Inr (\<lparr>toks = [], curText = '')'', contains = PB MODEL OR PB PARSED\<rparr>,
     (chain_store 0)(0 := (PART_clear (chain_store 0 0))
        \<lparr>part_datasheet := empty_PROPERTY\<lparr>prop_text := ''a.pdf''\<rparr>,
         part_contains := PB MODEL OR PB PARSED\<rparr>))"
  by (simp add: eval_defs PB_set PB_nonzero PART_clear_def)

lemma one_model:
  "Parse example_ENV (parser_on (part_tokens (field_tokens T_model ''model'' ''m'' @
      [(T_RIGHT, '')'')]))) (chain_store 0) 0
   = Inr (\<lparr>toks = [], curText = '')'', contains = PB MODEL OR PB PARSED\<rparr>,
     (chain_store 0)(0 := (PART_clear (chain_store 0 0))
        \<lparr>part_model := empty_PROPERTY\<lparr>prop_text := ''m''\<rparr>,
         part_contains := PB MODEL OR PB PARSED\<rparr>))"
  by (simp add: eval_defs PB_set PB_nonzero PART_clear_def)

subsection \<open>C7: the bare tokens of a pin\<close>

text \<open>
  What the flags \<^verbatim>\<open>sawShape\<close> and \<^verbatim>\<open>sawType\<close> are used for. A parenthesized clause of
  the pin neither reads nor writes them; a bare token reads and sets its own flag; the
  closing delimiter reads none. So a pin that parses from some flags parses to the same
  result from flags that are set in fewer places.
\<close>

lemma parsePin_item_paren:
  "parsePin_item T_LEFT st me (sawShape, sawType, f)
   = (case parsePin_item T_LEFT st me (False, False, f) of
        Inl e \<Rightarrow> Inl e
      | Inr (st2, me2, a, b, f2) \<Rightarrow> Inr (st2, me2, sawShape, sawType, f2))"
proof -
  obtain tok1 st1 where nt: "NextTok st = (tok1, st1)"
    by (cases "NextTok st") auto
  obtain sawAt sawLen sawSignal sawPadName sawVis
    where f: "f = (sawAt, sawLen, sawSignal, sawPadName, sawVis)"
    by (cases f) auto
  consider "tok1 = T_at" | "tok1 = T_length" | "tok1 = T_signal" | "tok1 = T_padname"
    | "tok1 = T_visible"
    | "tok1 \<noteq> T_at" "tok1 \<noteq> T_length" "tok1 \<noteq> T_signal" "tok1 \<noteq> T_padname"
      "tok1 \<noteq> T_visible"
    by blast
  then show ?thesis
  proof cases
    case 1
    then show ?thesis
      unfolding parsePin_item_def f
      by (cases "parseAt st1 (pin_pos me) (pin_angle me)") (auto simp: nt)
  next
    case 2
    then show ?thesis
      unfolding parsePin_item_def f
      by (cases "length_clause ''length'' st1") (auto simp: nt)
  next
    case 3
    then show ?thesis
      unfolding parsePin_item_def f
      by (cases "parsePinText st1 (pin_signal me)") (auto simp: nt)
  next
    case 4
    then show ?thesis
      unfolding parsePin_item_def f
      by (cases "parsePinText st1 (pin_padname me)") (auto simp: nt)
  next
    case 5
    then show ?thesis
      unfolding parsePin_item_def f
      by (cases "visible_clause st1") (auto simp: nt)
  next
    case 6
    then show ?thesis
      unfolding parsePin_item_def f by (simp add: nt)
  qed
qed

lemma parsePin_item_bare:
  assumes "tok \<noteq> T_LEFT"
    and "parsePin_item tok st me (sawShape, sawType, f) = Inr (st2, me2, sawShape2, sawType2, f2)"
    and "sawShape' \<longrightarrow> sawShape" and "sawType' \<longrightarrow> sawType"
  shows "parsePin_item tok st me (sawShape', sawType', f)
             = Inr (st2, me2, sawShape' \<or> (sawShape2 \<and> \<not> sawShape),
                    sawType' \<or> (sawType2 \<and> \<not> sawType), f2)"
proof -
  obtain sawAt sawLen sawSignal sawPadName sawVis
    where f: "f = (sawAt, sawLen, sawSignal, sawPadName, sawVis)"
    by (cases f) auto
  consider "tok \<in> set pin_types" | "tok \<notin> set pin_types" "tok \<in> set pin_shapes"
    | "tok \<notin> set pin_types" "tok \<notin> set pin_shapes"
    by blast
  then show ?thesis
  proof cases
    case 1
    with assms show ?thesis
      unfolding parsePin_item_def f by (cases sawType) auto
  next
    case 2
    with assms show ?thesis
      unfolding parsePin_item_def f by (cases sawShape) auto
  next
    case 3
    with assms show ?thesis
      unfolding parsePin_item_def f by simp
  qed
qed

lemma parsePin_item_flags:
  assumes "parsePin_item tok st me (sawShape, sawType, f) = Inr (st2, me2, sawShape2, sawType2, f2)"
    and "sawShape' \<longrightarrow> sawShape" and "sawType' \<longrightarrow> sawType"
  shows "parsePin_item tok st me (sawShape', sawType', f)
             = Inr (st2, me2, sawShape' \<or> (sawShape2 \<and> \<not> sawShape),
                    sawType' \<or> (sawType2 \<and> \<not> sawType), f2)
         \<and> (sawShape \<longrightarrow> sawShape2) \<and> (sawType \<longrightarrow> sawType2)"
proof (cases "tok = T_LEFT")
  case True
  from assms(1) show ?thesis
    unfolding True
    by (subst parsePin_item_paren, subst (asm) parsePin_item_paren)
       (auto split: sum.splits)
next
  case False
  from parsePin_item_bare [OF False assms] have
    a: "parsePin_item tok st me (sawShape', sawType', f)
             = Inr (st2, me2, sawShape' \<or> (sawShape2 \<and> \<not> sawShape),
                    sawType' \<or> (sawType2 \<and> \<not> sawType), f2)" .
  from parsePin_item_bare [OF False assms(1), of sawShape sawType] assms(1)
  have "(sawShape \<longrightarrow> sawShape2) \<and> (sawType \<longrightarrow> sawType2)"
    by auto
  with a show ?thesis by simp
qed

lemma parsePin_loop_flags:
  "parsePin_loop st me saw = Inr r \<Longrightarrow> saw = (sawShape, sawType, f) \<Longrightarrow>
   (sawShape' \<longrightarrow> sawShape) \<Longrightarrow> (sawType' \<longrightarrow> sawType) \<Longrightarrow>
   parsePin_loop st me (sawShape', sawType', f) = Inr r"
proof (induction st me saw arbitrary: sawShape sawType f sawShape' sawType'
    rule: parsePin_loop.induct)
  case (1 st me saw)
  obtain tok st0 where nt: "NextTok st = (tok, st0)"
    by (cases "NextTok st") auto
  show ?case
  proof (cases "tok = T_RIGHT")
    case True
    with "1.prems"(1) nt show ?thesis
      by (simp add: parsePin_loop.simps [of st])
  next
    case False
    with "1.prems"(1) nt obtain st2 me2 saw2
      where item: "parsePin_item tok st0 me saw = Inr (st2, me2, saw2)"
        and rest: "parsePin_loop st2 me2 saw2 = Inr r"
      by (auto simp: parsePin_loop.simps [of st] split: sum.splits prod.splits)
    obtain sawShape2 sawType2 f2 where s2: "saw2 = (sawShape2, sawType2, f2)"
      by (cases saw2) auto
    note fl = parsePin_item_flags [OF item [unfolded "1.prems"(2) s2] "1.prems"(3,4)]
    have "parsePin_loop st2 me2 (sawShape' \<or> (sawShape2 \<and> \<not> sawShape),
                    sawType' \<or> (sawType2 \<and> \<not> sawType), f2) = Inr r"
      using fl "1.prems"(3,4)
      by (intro "1.IH" [OF nt [symmetric] False item refl refl rest s2]) auto
    with nt False fl show ?thesis
      by (simp add: parsePin_loop.simps [of st])
  qed
qed

lemma parsePin_item_fields:
  assumes "parsePin_item tok st me (True, True, f) = Inr (st2, me2, saw2)"
  shows "parsePin_item tok st (me\<lparr>pin_connectionType := t, pin_shape := s\<rparr>) (True, True, f)
       = Inr (st2, me2\<lparr>pin_connectionType := t, pin_shape := s\<rparr>, saw2)
       \<and> (\<exists>f2. saw2 = (True, True, f2))"
proof (cases "tok = T_LEFT")
  case True
  obtain tok1 st1 where nt: "NextTok st = (tok1, st1)"
    by (cases "NextTok st") auto
  obtain sawAt sawLen sawSignal sawPadName sawVis
    where f: "f = (sawAt, sawLen, sawSignal, sawPadName, sawVis)"
    by (cases f) auto
  consider "tok1 = T_at" | "tok1 = T_length" | "tok1 = T_signal" | "tok1 = T_padname"
    | "tok1 = T_visible"
    | "tok1 \<noteq> T_at" "tok1 \<noteq> T_length" "tok1 \<noteq> T_signal" "tok1 \<noteq> T_padname"
      "tok1 \<noteq> T_visible"
    by blast
  then show ?thesis
  proof cases
    case 1
    with assms show ?thesis
      unfolding parsePin_item_def f True
      by (cases "parseAt st1 (pin_pos me) (pin_angle me)") (auto simp: nt split: if_splits)
  next
    case 2
    with assms show ?thesis
      unfolding parsePin_item_def f True
      by (cases "length_clause ''length'' st1") (auto simp: nt split: if_splits)
  next
    case 3
    with assms show ?thesis
      unfolding parsePin_item_def f True
      by (cases "parsePinText st1 (pin_signal me)") (auto simp: nt split: if_splits)
  next
    case 4
    with assms show ?thesis
      unfolding parsePin_item_def f True
      by (cases "parsePinText st1 (pin_padname me)") (auto simp: nt split: if_splits)
  next
    case 5
    with assms show ?thesis
      unfolding parsePin_item_def f True
      by (cases "visible_clause st1") (auto simp: nt split: if_splits)
  next
    case 6
    with assms show ?thesis
      unfolding parsePin_item_def f True by (simp add: nt)
  qed
next
  case False
  obtain sawAt sawLen sawSignal sawPadName sawVis
    where f: "f = (sawAt, sawLen, sawSignal, sawPadName, sawVis)"
    by (cases f) auto
  from assms False show ?thesis
    unfolding parsePin_item_def f by (simp split: if_splits)
qed

lemma parsePin_loop_fields:
  "parsePin_loop st me saw = Inr (st', me') \<Longrightarrow> saw = (True, True, f) \<Longrightarrow>
   parsePin_loop st (me\<lparr>pin_connectionType := t, pin_shape := s\<rparr>) (True, True, f)
     = Inr (st', me'\<lparr>pin_connectionType := t, pin_shape := s\<rparr>)"
proof (induction st me saw arbitrary: f rule: parsePin_loop.induct)
  case (1 st me saw)
  obtain tok st0 where nt: "NextTok st = (tok, st0)"
    by (cases "NextTok st") auto
  show ?case
  proof (cases "tok = T_RIGHT")
    case True
    with "1.prems"(1) nt show ?thesis
      by (simp add: parsePin_loop.simps [of st] parsePin_loop.simps [of "st"])
  next
    case False
    with "1.prems"(1) nt obtain st2 me2 saw2
      where item: "parsePin_item tok st0 me saw = Inr (st2, me2, saw2)"
        and rest: "parsePin_loop st2 me2 saw2 = Inr (st', me')"
      by (auto simp: parsePin_loop.simps [of st] split: sum.splits prod.splits)
    from parsePin_item_fields [OF item [unfolded "1.prems"(2)], where t = t and s = s]
    obtain f2 where s2: "saw2 = (True, True, f2)"
      and item': "parsePin_item tok st0 (me\<lparr>pin_connectionType := t, pin_shape := s\<rparr>)
          (True, True, f)
       = Inr (st2, me2\<lparr>pin_connectionType := t, pin_shape := s\<rparr>, True, True, f2)"
      by auto
    from "1.IH" [OF nt [symmetric] False item refl refl rest s2]
    have "parsePin_loop st2 (me2\<lparr>pin_connectionType := t, pin_shape := s\<rparr>) (True, True, f2)
      = Inr (st', me'\<lparr>pin_connectionType := t, pin_shape := s\<rparr>)" .
    with nt False item' show ?thesis
      by (simp add: parsePin_loop.simps [of st])
  qed
qed

lemma parsePin_without_flags:
  assumes "ty \<in> set pin_types" and "sh \<in> set pin_shapes"
    and "parsePin \<lparr>toks = (ty, a) # (sh, b) # ts, curText = c, contains = k\<rparr> me
         = Inr (st', me')"
  shows "parsePin \<lparr>toks = ts, curText = c', contains = k\<rparr> me
         = Inr (st', me'\<lparr>pin_connectionType := pin_connectionType me,
                         pin_shape := pin_shape me\<rparr>)"
proof -
  from assms(1) have ty: "ty \<noteq> T_RIGHT" "ty \<noteq> T_LEFT"
    by (auto simp: pin_types_def)
  from assms(2) have sh: "sh \<noteq> T_RIGHT" "sh \<noteq> T_LEFT" "sh \<notin> set pin_types"
    by (auto simp: pin_shapes_def pin_types_def)
  let ?f = "(False, False, False, False, False)"
  have "parsePin \<lparr>toks = (ty, a) # (sh, b) # ts, curText = c, contains = k\<rparr> me
      = parsePin_loop \<lparr>toks = ts, curText = b, contains = k\<rparr>
          (me\<lparr>pin_connectionType := ty, pin_shape := sh\<rparr>) (True, True, ?f)"
    using ty sh assms(1,2)
    by (simp add: parsePin_def NextTok_record parsePin_item_def
        parsePin_loop.simps [of "\<lparr>toks = (ty, a) # (sh, b) # ts, curText = c, contains = k\<rparr>"]
        parsePin_loop.simps [of "\<lparr>toks = (sh, b) # ts, curText = a, contains = k\<rparr>"])
  with assms(3) have run: "parsePin_loop \<lparr>toks = ts, curText = b, contains = k\<rparr>
          (me\<lparr>pin_connectionType := ty, pin_shape := sh\<rparr>) (True, True, ?f) = Inr (st', me')"
    by simp
  from parsePin_loop_fields [OF run refl, where t = "pin_connectionType me" and s = "pin_shape me"]
  have "parsePin_loop \<lparr>toks = ts, curText = b, contains = k\<rparr> me (True, True, ?f)
      = Inr (st', me'\<lparr>pin_connectionType := pin_connectionType me, pin_shape := pin_shape me\<rparr>)"
    by simp
  from parsePin_loop_flags [OF this refl, of False False]
  have nf: "parsePin_loop \<lparr>toks = ts, curText = b, contains = k\<rparr> me (False, False, ?f)
      = Inr (st', me'\<lparr>pin_connectionType := pin_connectionType me, pin_shape := pin_shape me\<rparr>)"
    by simp
  show ?thesis
  proof (cases ts)
    case Nil
    with nf show ?thesis
      by (simp add: parsePin_loop.simps [of "\<lparr>toks = [], curText = b, contains = k\<rparr>"]
          NextTok_def parsePin_item_def pin_types_def pin_shapes_def)
  next
    case (Cons x xs)
    obtain t0 s0 where x: "x = (t0, s0)" by (cases x) auto
    from nf show ?thesis
      unfolding parsePin_def Cons x
      by (simp add: NextTok_record
          parsePin_loop.simps [of "\<lparr>toks = (t0, s0) # xs, curText = b, contains = k\<rparr>"]
          parsePin_loop.simps [of "\<lparr>toks = (t0, s0) # xs, curText = c', contains = k\<rparr>"])
  qed
qed

text \<open>
  C7, as the claim states it: a pin clause that closes without an electrical-type token
  and a shape token does not parse successfully. The pin \<^verbatim>\<open>(pin)\<close> parses: the loop of
  \<^verbatim>\<open>parsePin\<close> ends at the closing delimiter and no flag is looked at afterwards.
\<close>

theorem pin_without_flags_parses:
  "parsePin (parser_on [(T_RIGHT, '')'')]) example_PIN
     = Inr (\<lparr>toks = [], curText = '')'', contains = 0\<rparr>, example_PIN)"
  by (simp add: parser_on_def parsePin_def parsePin_loop.simps need_defs)

text \<open>
  C7, amended. Among the bare tokens of a pin there is at most one electrical-type token,
  of an enumeration of eleven, and at most one shape token, of an enumeration of nine:
  the first of each kind is stored, a second one raises the duplicate error, and a bare
  token of neither enumeration raises the grammar error \<^verbatim>\<open>Unexpected\<close>. No token of
  either kind is required: the closing delimiter ends the pin whatever flags are set,
  the parenthesized clauses do not look at the two flags, a pin that parses from some
  flags parses to the same result from fewer, and whenever a pin with a type and a shape
  token in front parses, the pin without the two tokens parses as well, to the same pin
  but for its type and shape, which stay as constructed.
\<close>

theorem pin_flag_tokens:
  "(tok \<in> set pin_types \<longrightarrow>
      parsePin_loop \<lparr>toks = (tok, tx) # ts, curText = c, contains = k\<rparr> me
        (sawShape, sawType, sawAt, sawLen, sawSignal, sawPadName, sawVis)
      = (if sawType then Inl (Duplicate_tok tok)
         else parsePin_loop \<lparr>toks = ts, curText = tx, contains = k\<rparr>
                (me\<lparr>pin_connectionType := tok\<rparr>)
                (sawShape, True, sawAt, sawLen, sawSignal, sawPadName, sawVis)))
   \<and> (tok \<in> set pin_shapes \<longrightarrow>
      parsePin_loop \<lparr>toks = (tok, tx) # ts, curText = c, contains = k\<rparr> me
        (sawShape, sawType, sawAt, sawLen, sawSignal, sawPadName, sawVis)
      = (if sawShape then Inl (Duplicate_tok tok)
         else parsePin_loop \<lparr>toks = ts, curText = tx, contains = k\<rparr>
                (me\<lparr>pin_shape := tok\<rparr>)
                (True, sawType, sawAt, sawLen, sawSignal, sawPadName, sawVis)))
   \<and> (tok \<notin> set pin_types \<union> set pin_shapes \<union> {T_LEFT, T_RIGHT} \<longrightarrow>
      parsePin_loop \<lparr>toks = (tok, tx) # ts, curText = c, contains = k\<rparr> me saw
      = Inl (Unexpected_tok tok))
   \<and> parsePin \<lparr>toks = (T_RIGHT, tx) # ts, curText = c, contains = k\<rparr> me
      = Inr (\<lparr>toks = ts, curText = tx, contains = k\<rparr>, me)
   \<and> length pin_types = 11 \<and> distinct pin_types
   \<and> length pin_shapes = 9 \<and> distinct pin_shapes
   \<and> set pin_types \<inter> set pin_shapes = {}
   \<and> is_DuplicateClauseError (Duplicate_tok tok) \<and> is_GrammarError (Unexpected_tok tok)
   \<and> parsePin_loop \<lparr>toks = (T_RIGHT, tx) # ts, curText = c, contains = k\<rparr> me saw
      = Inr (\<lparr>toks = ts, curText = tx, contains = k\<rparr>, me)
   \<and> parsePin_item T_LEFT st me (sawShape, sawType, f)
      = (case parsePin_item T_LEFT st me (False, False, f) of
           Inl e \<Rightarrow> Inl e
         | Inr (st2, me2, x, y, f2) \<Rightarrow> Inr (st2, me2, sawShape, sawType, f2))
   \<and> (parsePin_loop st me (sawShape, sawType, f) = Inr res \<and>
       (sawShape' \<longrightarrow> sawShape) \<and> (sawType' \<longrightarrow> sawType) \<longrightarrow>
      parsePin_loop st me (sawShape', sawType', f) = Inr res)
   \<and> (ty \<in> set pin_types \<and> sh \<in> set pin_shapes \<and>
       parsePin \<lparr>toks = (ty, ta) # (sh, tb) # ts, curText = c, contains = k\<rparr> me
         = Inr (st', me') \<longrightarrow>
      parsePin \<lparr>toks = ts, curText = c', contains = k\<rparr> me
         = Inr (st', me'\<lparr>pin_connectionType := pin_connectionType me,
                         pin_shape := pin_shape me\<rparr>))"
proof (intro conjI impI)
  assume t: "tok \<in> set pin_types"
  then have "tok \<noteq> T_RIGHT" "tok \<noteq> T_LEFT"
    by (auto simp: pin_types_def)
  with t show "parsePin_loop \<lparr>toks = (tok, tx) # ts, curText = c, contains = k\<rparr> me
        (sawShape, sawType, sawAt, sawLen, sawSignal, sawPadName, sawVis)
      = (if sawType then Inl (Duplicate_tok tok)
         else parsePin_loop \<lparr>toks = ts, curText = tx, contains = k\<rparr>
                (me\<lparr>pin_connectionType := tok\<rparr>)
                (sawShape, True, sawAt, sawLen, sawSignal, sawPadName, sawVis))"
    by (subst parsePin_loop.simps) (simp add: parsePin_item_def need_defs)
next
  assume t: "tok \<in> set pin_shapes"
  then have "tok \<noteq> T_RIGHT" "tok \<noteq> T_LEFT" "tok \<notin> set pin_types"
    by (auto simp: pin_shapes_def pin_types_def)
  with t show "parsePin_loop \<lparr>toks = (tok, tx) # ts, curText = c, contains = k\<rparr> me
        (sawShape, sawType, sawAt, sawLen, sawSignal, sawPadName, sawVis)
      = (if sawShape then Inl (Duplicate_tok tok)
         else parsePin_loop \<lparr>toks = ts, curText = tx, contains = k\<rparr>
                (me\<lparr>pin_shape := tok\<rparr>)
                (True, sawType, sawAt, sawLen, sawSignal, sawPadName, sawVis))"
    by (subst parsePin_loop.simps) (simp add: parsePin_item_def need_defs)
next
  assume t: "tok \<notin> set pin_types \<union> set pin_shapes \<union> {T_LEFT, T_RIGHT}"
  then have "tok \<noteq> T_RIGHT" "tok \<noteq> T_LEFT" "tok \<notin> set pin_types" "tok \<notin> set pin_shapes"
    by auto
  then show "parsePin_loop \<lparr>toks = (tok, tx) # ts, curText = c, contains = k\<rparr> me saw
      = Inl (Unexpected_tok tok)"
    by (subst parsePin_loop.simps) (simp add: parsePin_item_def need_defs split: prod.splits)
next
  show "parsePin \<lparr>toks = (T_RIGHT, tx) # ts, curText = c, contains = k\<rparr> me
      = Inr (\<lparr>toks = ts, curText = tx, contains = k\<rparr>, me)"
    by (simp add: parsePin_def need_defs
        parsePin_loop.simps [of "\<lparr>toks = (T_RIGHT, tx) # ts, curText = c, contains = k\<rparr>"])
next
  show "parsePin_loop \<lparr>toks = (T_RIGHT, tx) # ts, curText = c, contains = k\<rparr> me saw
      = Inr (\<lparr>toks = ts, curText = tx, contains = k\<rparr>, me)"
    by (simp add: need_defs
        parsePin_loop.simps [of "\<lparr>toks = (T_RIGHT, tx) # ts, curText = c, contains = k\<rparr>"])
next
  show "parsePin_item T_LEFT st me (sawShape, sawType, f)
      = (case parsePin_item T_LEFT st me (False, False, f) of
           Inl e \<Rightarrow> Inl e
         | Inr (st2, me2, x, y, f2) \<Rightarrow> Inr (st2, me2, sawShape, sawType, f2))"
    by (rule parsePin_item_paren)
next
  assume "parsePin_loop st me (sawShape, sawType, f) = Inr res \<and>
       (sawShape' \<longrightarrow> sawShape) \<and> (sawType' \<longrightarrow> sawType)"
  then show "parsePin_loop st me (sawShape', sawType', f) = Inr res"
    using parsePin_loop_flags [of st me "(sawShape, sawType, f)" res sawShape sawType f
        sawShape' sawType']
    by blast
next
  assume "ty \<in> set pin_types \<and> sh \<in> set pin_shapes \<and>
       parsePin \<lparr>toks = (ty, ta) # (sh, tb) # ts, curText = c, contains = k\<rparr> me
         = Inr (st', me')"
  then show "parsePin \<lparr>toks = ts, curText = c', contains = k\<rparr> me
         = Inr (st', me'\<lparr>pin_connectionType := pin_connectionType me,
                         pin_shape := pin_shape me\<rparr>)"
    using parsePin_without_flags by blast
qed (simp_all add: pin_types_def pin_shapes_def is_DuplicateClauseError_def
      is_GrammarError_def)

text \<open>
  Two type tokens, two shape tokens, a bare token that is neither, and the pin
  \<^verbatim>\<open>(pin (length 1))\<close>, got from \<^verbatim>\<open>(pin input line (length 1))\<close>.
\<close>

theorem pin_flag_tokens_witness:
  "parsePin (parser_on [(T_input, ''input''), (T_output, ''output''), (T_RIGHT, '')'')])
     example_PIN = Inl (Duplicate_tok T_output)
   \<and> parsePin (parser_on [(T_line, ''line''), (T_clock, ''clock''), (T_RIGHT, '')'')])
     example_PIN = Inl (Duplicate_tok T_clock)
   \<and> parsePin (parser_on [(T_input, ''input''), (T_bold, ''bold''), (T_RIGHT, '')'')])
     example_PIN = Inl (Unexpected_tok T_bold)
   \<and> parsePin (parser_on [(T_LEFT, ''(''), (T_length, ''length''), (T_NUMBER, ''1''),
                           (T_RIGHT, '')''), (T_RIGHT, '')'')])
     example_PIN
     = Inr (\<lparr>toks = [], curText = '')'', contains = 0\<rparr>,
            example_PIN\<lparr>pin_length := internal ''1''\<rparr>)"
proof -
  note a = pin_flag_tokens [where tok = T_input and sawType = False and sawShape = False
      and sawAt = False and sawLen = False and sawSignal = False and sawPadName = False
      and sawVis = False and me = example_PIN and c = "[]" and k = 0, THEN conjunct1]
  note b = pin_flag_tokens [where tok = T_output and sawType = True and sawShape = False
      and sawAt = False and sawLen = False and sawSignal = False and sawPadName = False
      and sawVis = False and c = "''input''" and k = 0, THEN conjunct1]
  note c = pin_flag_tokens [where tok = T_line and sawType = False and sawShape = False
      and sawAt = False and sawLen = False and sawSignal = False and sawPadName = False
      and sawVis = False and me = example_PIN and c = "[]" and k = 0,
      THEN conjunct2, THEN conjunct1]
  note d = pin_flag_tokens [where tok = T_clock and sawType = False and sawShape = True
      and sawAt = False and sawLen = False and sawSignal = False and sawPadName = False
      and sawVis = False and c = "''line''" and k = 0, THEN conjunct2, THEN conjunct1]
  note e = pin_flag_tokens [where tok = T_bold and c = "''input''" and k = 0,
      THEN conjunct2, THEN conjunct2, THEN conjunct1]
  have t: "T_input \<in> set pin_types" "T_output \<in> set pin_types" "T_line \<in> set pin_shapes"
    "T_clock \<in> set pin_shapes"
    "T_bold \<notin> set pin_types \<union> set pin_shapes \<union> {T_LEFT, T_RIGHT}"
    by (simp_all add: pin_types_def pin_shapes_def)
  have full: "parsePin
      \<lparr>toks = (T_input, ''input'') # (T_line, ''line'') #
         [(T_LEFT, ''(''), (T_length, ''length''), (T_NUMBER, ''1''),
          (T_RIGHT, '')''), (T_RIGHT, '')'')], curText = [], contains = 0\<rparr> example_PIN
    = Inr (\<lparr>toks = [], curText = '')'', contains = 0\<rparr>,
           example_PIN\<lparr>pin_length := internal ''1'', pin_connectionType := T_input,
                        pin_shape := T_line\<rparr>)"
    by (simp add: parsePin_def parsePin_loop.simps parsePin_item_def length_clause_def
        need_defs pin_types_def pin_shapes_def)
  have g: "parsePin \<lparr>toks = [(T_LEFT, ''(''), (T_length, ''length''), (T_NUMBER, ''1''),
          (T_RIGHT, '')''), (T_RIGHT, '')'')], curText = [], contains = 0\<rparr> example_PIN
     = Inr (\<lparr>toks = [], curText = '')'', contains = 0\<rparr>,
            example_PIN\<lparr>pin_length := internal ''1''\<rparr>)"
    using pin_flag_tokens [where ty = T_input and sh = T_line and ta = "''input''"
        and tb = "''line''" and me = example_PIN and c = "[]" and c' = "[]" and k = 0
        and ts = "[(T_LEFT, ''(''), (T_length, ''length''), (T_NUMBER, ''1''),
          (T_RIGHT, '')''), (T_RIGHT, '')'')]"
        and st' = "\<lparr>toks = [], curText = '')'', contains = 0\<rparr>"
        and me' = "example_PIN\<lparr>pin_length := internal ''1'', pin_connectionType := T_input,
                        pin_shape := T_line\<rparr>"] full t
    by (simp add: example_PIN_def)
  from a b c d e t g show ?thesis
    by (simp add: parsePin_def parser_on_def)
qed

subsection \<open>C8: the points of a polyline\<close>

lemma parsePts_xy_tokens:
  "parsePts \<lparr>toks = xy_tokens ps @ (T_RIGHT, r) # rest, curText = c, contains = k\<rparr> pts count
     = Inr (\<lparr>toks = rest, curText = r, contains = k\<rparr>, pts @ points_of ps,
            count + int (length ps))"
proof (induction ps arbitrary: c pts count)
  case Nil
  show ?case
    by (simp add: xy_tokens_def points_of_def need_defs
        parsePts.simps [of "\<lparr>toks = _, curText = _, contains = _\<rparr>"])
next
  case (Cons p ps)
  obtain x y where p: "p = (x, y)" by (cases p) auto
  have "parsePts \<lparr>toks = xy_tokens (p # ps) @ (T_RIGHT, r) # rest, curText = c, contains = k\<rparr>
          pts count
        = parsePts \<lparr>toks = xy_tokens ps @ (T_RIGHT, r) # rest, curText = '')'', contains = k\<rparr>
            (pts @ [\<lparr>pt_x = internal x, pt_y = internal y\<rparr>]) (count + 1)"
    by (subst parsePts.simps) (simp add: p xy_tokens_def parsePts_item_def need_defs)
  also have "\<dots> = Inr (\<lparr>toks = rest, curText = r, contains = k\<rparr>,
       (pts @ [\<lparr>pt_x = internal x, pt_y = internal y\<rparr>]) @ points_of ps,
       count + 1 + int (length ps))"
    by (rule Cons.IH)
  finally show ?case by (simp add: p points_of_def)
qed

lemma parsePolyLine_loop_pts:
  "parsePolyLine_loop
     \<lparr>toks = (T_LEFT, l) # (T_pts, p) # xy_tokens ps @ (T_RIGHT, r) # rest,
      curText = c, contains = k\<rparr> me (0, sawWidth, sawFill)
   = (if length ps < 2 then Inl (Expecting_text ''>= 2 pts'')
      else parsePolyLine_loop \<lparr>toks = rest, curText = r, contains = k\<rparr>
             (me\<lparr>pl_pts := pl_pts me @ points_of ps\<rparr>) (int (length ps), sawWidth, sawFill))"
  using parsePts_xy_tokens [of ps r rest p k "pl_pts me" 0]
  by (subst parsePolyLine_loop.simps) (simp add: parsePolyLine_item_def need_defs)

text \<open>
  C8. In the body of a line, polyline or bezier, a \<^verbatim>\<open>pts\<close> clause with one point (or
  none) raises the grammar error \<^verbatim>\<open>Expecting( ">= 2 pts" )\<close>; with two points or more
  the points are stored in the order of the input, after which the loop goes on; when
  the body closes there, the parse succeeds. \<^verbatim>\<open>parseBezier\<close> is \<^verbatim>\<open>parsePolyLine\<close>.
\<close>

theorem polyline_minimum_points:
  "parsePolyLine_loop
     \<lparr>toks = (T_LEFT, l) # (T_pts, p) # xy_tokens ps @ (T_RIGHT, r) # rest,
      curText = c, contains = k\<rparr> me (0, sawWidth, sawFill)
   = (if length ps < 2 then Inl (Expecting_text ''>= 2 pts'')
      else parsePolyLine_loop \<lparr>toks = rest, curText = r, contains = k\<rparr>
             (me\<lparr>pl_pts := pl_pts me @ points_of ps\<rparr>) (int (length ps), sawWidth, sawFill))
   \<and> parsePolyLine
       \<lparr>toks = (T_LEFT, l) # (T_pts, p) # xy_tokens ps @ (T_RIGHT, r) # (T_RIGHT, r') # rest,
        curText = c, contains = k\<rparr> me
     = (if length ps < 2 then Inl (Expecting_text ''>= 2 pts'')
        else Inr (\<lparr>toks = rest, curText = r', contains = k\<rparr>,
                  me\<lparr>pl_pts := pl_pts me @ points_of ps\<rparr>))
   \<and> parseBezier
       \<lparr>toks = (T_LEFT, l) # (T_pts, p) # xy_tokens ps @ (T_RIGHT, r) # (T_RIGHT, r') # rest,
        curText = c, contains = k\<rparr> me
     = (if length ps < 2 then Inl (Expecting_text ''>= 2 pts'')
        else Inr (\<lparr>toks = rest, curText = r', contains = k\<rparr>,
                  me\<lparr>pl_pts := pl_pts me @ points_of ps\<rparr>))
   \<and> is_GrammarError (Expecting_text ''>= 2 pts'')"
  by (simp add: parseBezier_def parsePolyLine_def parsePolyLine_loop_pts need_defs
      is_GrammarError_def
      parsePolyLine_loop.simps [of "\<lparr>toks = (T_RIGHT, _) # _, curText = _, contains = _\<rparr>"])

subsection \<open>C9: the optional left delimiter\<close>

text \<open>
  C9. At the head of the loop of \<^verbatim>\<open>Parse\<close> one left delimiter is skipped when there is
  one: the loop entered at \<^verbatim>\<open>(\<close> with the keyword next does what the loop entered at the
  bare keyword does, which is to hand the keyword to the \<^verbatim>\<open>switch\<close>. A second left
  delimiter is not skipped: it reaches the \<^verbatim>\<open>switch\<close> and is refused.
\<close>

theorem Parse_loop_optional_LEFT:
  assumes "tok \<noteq> T_LEFT" and "tok \<noteq> T_RIGHT" and "tok \<noteq> T_EOF"
  shows "Parse_loop libs T_LEFT \<lparr>toks = (tok, tx) # ts, curText = c, contains = k\<rparr> me
         = Parse_loop libs tok \<lparr>toks = ts, curText = tx, contains = k\<rparr> me
       \<and> Parse_loop libs tok \<lparr>toks = ts, curText = tx, contains = k\<rparr> me
         = (case Parse_clause libs tok \<lparr>toks = ts, curText = tx, contains = k\<rparr> me of
              Inl e \<Rightarrow> Inl e
            | Inr (st2, me2) \<Rightarrow>
                (case NextTok st2 of (tok2, st3) \<Rightarrow> Parse_loop libs tok2 st3 me2))
       \<and> Parse_loop libs T_LEFT \<lparr>toks = (T_LEFT, tx) # ts, curText = c, contains = k\<rparr> me
         = Inl (Expecting_text Parse_expecting)"
  using assms
  by (simp add: Parse_loop.simps [of libs T_LEFT] Parse_loop.simps [of libs tok]
      need_defs Parse_clause_def)

text \<open>The clause \<^verbatim>\<open>anchor 0 0\<close>, with and without the opening parenthesis.\<close>

theorem Parse_loop_optional_LEFT_witness:
  "Parse_loop example_ENV T_LEFT
     (parser_on [(T_anchor, ''anchor''), (T_NUMBER, ''0''), (T_NUMBER, ''0''), (T_RIGHT, '')'')])
     example_PART
   = Parse_loop example_ENV T_anchor
       \<lparr>toks = [(T_NUMBER, ''0''), (T_NUMBER, ''0''), (T_RIGHT, '')'')], curText = ''anchor'',
        contains = 0\<rparr> example_PART
   \<and> Parse_loop example_ENV T_anchor
       \<lparr>toks = [(T_NUMBER, ''0''), (T_NUMBER, ''0''), (T_RIGHT, '')'')], curText = ''anchor'',
        contains = 0\<rparr> example_PART
     = Inr (\<lparr>toks = [], curText = '')'', contains = PB ANCHOR\<rparr>,
            example_PART\<lparr>part_anchor := \<lparr>pt_x = internal ''0'', pt_y = internal ''0''\<rparr>\<rparr>)"
proof -
  have h: "T_anchor \<noteq> T_LEFT" "T_anchor \<noteq> T_RIGHT" "T_anchor \<noteq> T_EOF"
    by simp_all
  from Parse_loop_optional_LEFT [OF h, where libs = example_ENV and me = example_PART
      and k = 0 and c = "[]" and tx = "''anchor''"
      and ts = "[(T_NUMBER, ''0''), (T_NUMBER, ''0''), (T_RIGHT, '')'')]"]
  show ?thesis
    by (simp add: parser_on_def Parse_clause_def need_defs example_PART_def
        Parse_loop.simps [of example_ENV T_RIGHT])
qed

subsection \<open>C10: the message of \<^verbatim>\<open>parseArc\<close>\<close>

lemma parseArc_illegal_keyword:
  "kw \<notin> {T_pos, T_radius, T_start, T_end, T_line_width, T_fill} \<Longrightarrow>
   parseArc (st\<lparr>toks := (T_LEFT, l) # (kw, txt) # rest\<rparr>) me
     = Inl (Expecting_text ''center|radius|line_width|fill'')"
  by (simp add: parseArc_def parseArc_loop.simps parseArc_item_def need_defs)

text \<open>
  C10. The claim: a nested clause keyword outside the legal set of an arc, which is
  pos, radius, start, end, line\_width and fill, raises a grammar error whose description
  of the expected set enumerates exactly that set. The source, on the arc body
  \<^verbatim>\<open>(center 0 0))\<close>, raises the error with the description of \<^verbatim>\<open>parseCircle\<close>: it names
  \<open>center\<close>, the keyword it has just refused, and leaves out pos, start and end.
\<close>

theorem parseArc_expecting_at_center:
  "parseArc (parser_on [(T_LEFT, ''(''), (T_center, ''center''), (T_NUMBER, ''0''),
                        (T_NUMBER, ''0''), (T_RIGHT, '')''), (T_RIGHT, '')'')]) example_ARC
     = Inl (Expecting_text ''center|radius|line_width|fill'')"
  by (simp add: parser_on_def parseArc_def parseArc_loop.simps parseArc_item_def need_defs)

end
